theory Spec2Isabelle
  imports Complex_Main
begin

section \<open>Python values, exceptions and built-ins used by the collector\<close>

text \<open>
  The values a libzfs property can carry in its \<open>parsed\<close> attribute and that
  \<open>add_metric\<close> receives as a gauge value. The collector never converts them: what the
  getter returns is what the sample holds.
\<close>

datatype pyval = PyNone | PyBool bool | PyInt int | PyStr string

text \<open>
  The exceptions of the pass. \<open>KeyError\<close> carries the missing key, \<open>ValueError\<close> the
  string \<open>int\<close> could not read, \<open>ZFSException\<close> the message of a libzfs failure.
\<close>

datatype error = KeyError string | ValueError string | ZFSException string

text \<open>Sequencing of two steps, the first of which may raise.\<close>

definition and_then :: "error + 'a \<Rightarrow> ('a \<Rightarrow> error + 'b) \<Rightarrow> error + 'b" where
  "and_then r f = (case r of Inl e \<Rightarrow> Inl e | Inr v \<Rightarrow> f v)"

text \<open>Python truth value testing, as \<open>x and y\<close> and \<open>1 if c else 0\<close> apply it.\<close>

fun truthy :: "pyval \<Rightarrow> bool" where
  "truthy PyNone = False"
| "truthy (PyBool b) = b"
| "truthy (PyInt i) = (i \<noteq> 0)"
| "truthy (PyStr s) = (s \<noteq> [])"

text \<open>
  \<open>s.split(sep)\<close> for a one-character separator: every occurrence of the separator
  cuts, and empty pieces are kept, so the result has one more piece than \<open>s\<close> has
  separators.
\<close>

fun py_split :: "string \<Rightarrow> char \<Rightarrow> string list" where
  "py_split [] sep = [[]]"
| "py_split (c # cs) sep =
     (if c = sep then [] # py_split cs sep
      else (case py_split cs sep of
              [] \<Rightarrow> [[c]]
            | w # ws \<Rightarrow> (c # w) # ws))"

text \<open>
  \<open>int(s)\<close> on a string of ASCII characters, base ten, as CPython reads it: the
  whitespace around the number is dropped (tab, line feed, vertical tab, form feed,
  carriage return and space, and no other character), one sign is allowed, then
  decimal digits, where single underscores may stand between digits. A number of more
  than \<open>int_max_str_digits\<close> digits is refused (4300 unless the interpreter is
  configured otherwise, and the exporter does not configure it). Anything else raises
  \<open>ValueError\<close>, which here carries the string.
\<close>

definition is_space :: "char \<Rightarrow> bool" where
  "is_space c = (let n = (of_char c :: nat) in (9 \<le> n \<and> n \<le> 13) \<or> n = 32)"

definition int_max_str_digits :: nat where
  "int_max_str_digits = 4300"

definition is_digit :: "char \<Rightarrow> bool" where
  "is_digit c = (let n = (of_char c :: nat) in 48 \<le> n \<and> n \<le> 57)"

definition digit_val :: "char \<Rightarrow> int" where
  "digit_val c = int (of_char c) - 48"

definition strip :: "string \<Rightarrow> string" where
  "strip s = rev (dropWhile is_space (rev (dropWhile is_space s)))"

fun parse_digits :: "int \<Rightarrow> bool \<Rightarrow> string \<Rightarrow> int option" where
  "parse_digits acc prev [] = (if prev then Some acc else None)"
| "parse_digits acc prev (c # cs) =
     (if is_digit c then parse_digits (10 * acc + digit_val c) True cs
      else if c = CHR ''_'' \<and> prev then parse_digits acc False cs
      else None)"

definition parse_number :: "string \<Rightarrow> int option" where
  "parse_number cs =
     (if length (filter is_digit cs) > int_max_str_digits then None
      else parse_digits 0 False cs)"

definition py_int :: "string \<Rightarrow> error + int" where
  "py_int s =
     (case strip s of
        [] \<Rightarrow> Inl (ValueError s)
      | c # cs \<Rightarrow>
          (if c = CHR ''-'' then
             (case parse_number cs of None \<Rightarrow> Inl (ValueError s) | Some n \<Rightarrow> Inr (- n))
           else if c = CHR ''+'' then
             (case parse_number cs of None \<Rightarrow> Inl (ValueError s) | Some n \<Rightarrow> Inr n)
           else
             (case parse_number (c # cs) of None \<Rightarrow> Inl (ValueError s) | Some n \<Rightarrow> Inr n)))"

section \<open>The ZFS objects the collector reads\<close>

text \<open>
  A libzfs property has a raw string and a parsed value. A pool has a name and a
  dictionary of properties; a dataset has a name (its slash-separated path), the pool it
  belongs to, its type (an enumeration whose member names are upper case) and a
  dictionary of properties.
\<close>

record zfs_property =
  rawvalue :: string
  parsed :: pyval

record zfs_pool =
  pool_name :: string
  pool_properties :: "string \<rightharpoonup> zfs_property"

datatype dataset_type = FILESYSTEM | VOLUME | SNAPSHOT | BOOKMARK

fun type_name :: "dataset_type \<Rightarrow> string" where
  "type_name FILESYSTEM = ''FILESYSTEM''"
| "type_name VOLUME = ''VOLUME''"
| "type_name SNAPSHOT = ''SNAPSHOT''"
| "type_name BOOKMARK = ''BOOKMARK''"

record zfs_dataset =
  ds_name :: string
  ds_pool :: zfs_pool
  ds_type :: dataset_type
  ds_properties :: "string \<rightharpoonup> zfs_property"

text \<open>\<open>props[k]\<close> on a dictionary of properties: \<open>KeyError\<close> when the key is absent.\<close>

definition property_at :: "(string \<rightharpoonup> zfs_property) \<Rightarrow> string \<Rightarrow> error + zfs_property" where
  "property_at props k = (case props k of None \<Rightarrow> Inl (KeyError k) | Some p \<Rightarrow> Inr p)"

text \<open>
  What one pass sees of the outside world: the two readings of \<open>time.time()\<close> (line 58
  and line 101) and the two enumerations \<open>libzfs.ZFS().pools\<close> and
  \<open>libzfs.ZFS().datasets\<close>. Getting an enumeration may raise (\<open>Inl\<close>); otherwise it
  hands out its objects in order and may still raise once they are used up (the
  \<open>Some\<close> case), as a lazily produced sequence does.
\<close>

type_synonym 'a enumeration = "error + ('a list \<times> error option)"

record env =
  time_at_start :: real
  time_at_end :: real
  pools :: "zfs_pool enumeration"
  datasets :: "zfs_dataset enumeration"

section \<open>Metric families\<close>

text \<open>
  A sample carries the name of its family, its labels (label name paired with label
  value) and its value. A gauge family has a name, a help text, its label names and the
  samples added so far. \<open>add_metric\<close> appends one sample whose labels pair the
  family's label names with the given label values.
\<close>

record sample =
  s_name :: string
  s_labels :: "(string \<times> string) list"
  s_value :: pyval

record metric_family =
  m_name :: string
  m_documentation :: string
  m_labelnames :: "string list"
  m_samples :: "sample list"

definition GaugeMetricFamily :: "string \<Rightarrow> string \<Rightarrow> string list \<Rightarrow> metric_family" where
  "GaugeMetricFamily nm doc labels =
     \<lparr>m_name = nm, m_documentation = doc, m_labelnames = labels, m_samples = []\<rparr>"

definition add_metric :: "metric_family \<Rightarrow> string list \<Rightarrow> pyval \<Rightarrow> metric_family" where
  "add_metric fam labels v =
     fam\<lparr>m_samples := m_samples fam @
       [\<lparr>s_name = m_name fam, s_labels = zip (m_labelnames fam) labels, s_value = v\<rparr>]\<rparr>"

text \<open>
  The dictionaries of families keep insertion order, which is the order \<open>collect\<close>
  yields them in: an association list. \<open>dict_set\<close> is \<open>d[k] = v\<close> (a known key keeps
  its place), \<open>family_at\<close> is \<open>d[k]\<close>.
\<close>

type_synonym families = "(string \<times> metric_family) list"

fun dict_set :: "('k \<times> 'v) list \<Rightarrow> 'k \<Rightarrow> 'v \<Rightarrow> ('k \<times> 'v) list" where
  "dict_set [] k v = [(k, v)]"
| "dict_set ((k', v') # kvs) k v =
     (if k' = k then (k, v) # kvs else (k', v') # dict_set kvs k v)"

definition family_at :: "families \<Rightarrow> string \<Rightarrow> error + metric_family" where
  "family_at d k = (case map_of d k of None \<Rightarrow> Inl (KeyError k) | Some f \<Rightarrow> Inr f)"

text \<open>
  \<open>d[k].add_metric(labels, value)\<close>: the family is looked up first, then the value is
  computed (it may raise), then the sample is appended to the family the dictionary
  holds.
\<close>

definition add_sample :: "families \<Rightarrow> string \<Rightarrow> string list \<Rightarrow> error + pyval \<Rightarrow> error + families" where
  "add_sample d k labels r =
     and_then (family_at d k) (\<lambda>fam.
     and_then r (\<lambda>v.
     Inr (dict_set d k (add_metric fam labels v))))"

section \<open>The collector\<close>

text \<open>
  The collector object: the exclusion set and the depth limit given at construction,
  and the duration summary, represented by the amounts passed to \<open>observe\<close> so far (the
  summary's count and sum are the length and the total of that sequence).
\<close>

record collector =
  exclude :: "string set"
  limit :: int
  duration_summary :: "real list"

definition init :: "int \<Rightarrow> string list option \<Rightarrow> collector" where
  "init lmt excl =
     \<lparr>exclude = set (case excl of None \<Rightarrow> [] | Some xs \<Rightarrow> xs),
      limit = lmt,
      duration_summary = []\<rparr>"

definition observe :: "real list \<Rightarrow> real \<Rightarrow> real list" where
  "observe obs amount = obs @ [amount]"

text \<open>The three catalogues of \<open>collect\<close>: a key, a help text and a getter per row.\<close>

record metric_meta =
  desc :: string
  getter :: "zfs_dataset \<Rightarrow> error + pyval"

definition pmetrics :: "string list" where
  "pmetrics = [''size'', ''allocated'', ''freeing'']"

definition type_codes :: "(pyval \<times> int) list" where
  "type_codes =
     [(PyStr ''filesystem'', 0), (PyStr ''volume'', 1), (PyStr ''snapshot'', 2), (PyStr ''bookmark'', 3)]"

definition dsmetrics :: "(string \<times> metric_meta) list" where
  "dsmetrics =
     [(''used_bytes'',
        \<lparr>desc = ''The amount of space consumed by this dataset and all its descendants, in bytes'',
         getter = (\<lambda>d. and_then (property_at (ds_properties d) ''used'') (\<lambda>p. Inr (parsed p)))\<rparr>),
      (''usedbydataset_bytes'',
        \<lparr>desc = ''The amount of space used by this dataset itself, excluding descendants, in bytes'',
         getter = (\<lambda>d. and_then (property_at (ds_properties d) ''usedbydataset'') (\<lambda>p. Inr (parsed p)))\<rparr>),
      (''available_bytes'',
        \<lparr>desc = ''The amount of space available to the dataset and all its children, in bytes'',
         getter = (\<lambda>d. and_then (property_at (ds_properties d) ''available'') (\<lambda>p. Inr (parsed p)))\<rparr>),
      (''atime_enabled'',
        \<lparr>desc = ''Whether access time updates are enabled (1 = on, 0 = off)'',
         getter = (\<lambda>d. Inr (PyInt
           (case ds_properties d ''atime'' of
              None \<Rightarrow> 0
            | Some p \<Rightarrow> (if truthy (parsed p) then 1 else 0))))\<rparr>),
      (''creation_date'',
        \<lparr>desc = ''The time this dataset was created, in epoch'',
         getter = (\<lambda>d. and_then (property_at (ds_properties d) ''creation'') (\<lambda>p.
                        and_then (py_int (rawvalue p)) (\<lambda>n. Inr (PyInt n))))\<rparr>),
      (''type'',
        \<lparr>desc = ''Dataset type: 0=filesystem, 1=volume, 2=snapshot, 3=bookmark'',
         getter = (\<lambda>d. and_then (property_at (ds_properties d) ''type'') (\<lambda>p.
                        Inr (PyInt (case map_of type_codes (parsed p) of
                                      None \<Rightarrow> - 1
                                    | Some n \<Rightarrow> n))))\<rparr>)]"

definition volmetrics :: "(string \<times> metric_meta) list" where
  "volmetrics =
     [(''volsize_bytes'',
        \<lparr>desc = ''logical size of the volume, in bytes'',
         getter = (\<lambda>v. and_then (property_at (ds_properties v) ''volsize'') (\<lambda>p. Inr (parsed p)))\<rparr>)]"

text \<open>\<open>d[k]\<close> on a catalogue.\<close>

definition meta_at :: "(string \<times> metric_meta) list \<Rightarrow> string \<Rightarrow> error + metric_meta" where
  "meta_at cat k = (case map_of cat k of None \<Rightarrow> Inl (KeyError k) | Some m \<Rightarrow> Inr m)"

text \<open>
  A \<open>for\<close> loop over an enumeration whose body may raise: the body runs on each object
  in turn, the first exception ends the loop, and an enumeration that fails after its
  last object raises then.
\<close>

fun for_items :: "'a list \<Rightarrow> ('a \<Rightarrow> 's \<Rightarrow> error + 's) \<Rightarrow> 's \<Rightarrow> error + 's" where
  "for_items [] body s = Inr s"
| "for_items (x # xs) body s = and_then (body x s) (for_items xs body)"

definition for_each :: "'a list \<times> error option \<Rightarrow> ('a \<Rightarrow> 's \<Rightarrow> error + 's) \<Rightarrow> 's \<Rightarrow> error + 's" where
  "for_each en body s =
     and_then (for_items (fst en) body s) (\<lambda>s'.
     (case snd en of None \<Rightarrow> Inr s' | Some e \<Rightarrow> Inl e))"

text \<open>Lines 84 to 86: the three pool samples of one pool.\<close>

definition collect_pool :: "zfs_pool \<Rightarrow> families \<Rightarrow> error + families" where
  "collect_pool pool pools_metrics =
     for_items pmetrics
       (\<lambda>p pm. add_sample pm p [pool_name pool]
                 (and_then (property_at (pool_properties pool) p) (\<lambda>pr. Inr (parsed pr))))
       pools_metrics"

text \<open>Line 89: the depth of a dataset.\<close>

definition depth :: "zfs_dataset \<Rightarrow> int" where
  "depth ds = int (length (py_split (ds_name ds) CHR ''/'')) - 1"

text \<open>Lines 96 to 99: one sample per row of a catalogue, in the catalogue's order.\<close>

definition collect_rows :: "(string \<times> metric_meta) list \<Rightarrow> zfs_dataset \<Rightarrow> families \<Rightarrow> error + families" where
  "collect_rows cat ds datasets_metrics =
     for_items cat
       (\<lambda>(d, meta) dm. add_sample dm d [pool_name (ds_pool ds), ds_name ds] (getter meta ds))
       datasets_metrics"

text \<open>Lines 89 to 99: the body of the loop over the datasets.\<close>

definition collect_dataset :: "int \<Rightarrow> zfs_dataset \<Rightarrow> families \<Rightarrow> error + families" where
  "collect_dataset lmt ds datasets_metrics =
     (if depth ds > lmt then Inr datasets_metrics
      else if depth ds = lmt then
        add_sample datasets_metrics ''used_bytes'' [pool_name (ds_pool ds), ds_name ds]
          (and_then (meta_at dsmetrics ''used_bytes'') (\<lambda>meta. getter meta ds))
      else
        and_then
          (if type_name (ds_type ds) = ''VOLUME''
           then collect_rows volmetrics ds datasets_metrics
           else Inr datasets_metrics)
          (collect_rows dsmetrics ds))"

text \<open>Lines 63 to 82: the empty families, in the order they are created.\<close>

definition new_pools_metrics :: families where
  "new_pools_metrics =
     fold (\<lambda>p pm. dict_set pm p
             (GaugeMetricFamily (''zfs_pool_'' @ p @ ''_bytes'') (''ZFS Pool '' @ p @ '' in bytes'')
                [''pool'']))
       pmetrics []"

definition new_dataset_families :: "(string \<times> metric_meta) list \<Rightarrow> families \<Rightarrow> families" where
  "new_dataset_families cat dm0 =
     fold (\<lambda>(d, meta) dm. dict_set dm d
             (GaugeMetricFamily (''zfs_dataset_'' @ d) (desc meta) [''pool'', ''dataset'']))
       cat dm0"

definition new_datasets_metrics :: families where
  "new_datasets_metrics = new_dataset_families volmetrics (new_dataset_families dsmetrics [])"

text \<open>
  \<open>collect\<close> is a generator whose first \<open>yield\<close> stands after all the work (line 104):
  an exception of the work is raised before anything is yielded, and the three loops
  that yield cannot raise. So a pass either raises and yields nothing (\<open>Inl\<close>), or
  yields all its families and leaves the collector with one more observation (\<open>Inr\<close>).
  The exclusion set of the collector is not read.
\<close>

definition collect :: "collector \<Rightarrow> env \<Rightarrow> error + (metric_family list \<times> collector)" where
  "collect self w =
     (let volumes_metrics = ([] :: families);
          start = time_at_start w
      in
      and_then (pools w) (\<lambda>pls.
      and_then (datasets w) (\<lambda>dss.
      and_then (for_each pls collect_pool new_pools_metrics) (\<lambda>pools_metrics.
      and_then (for_each dss (collect_dataset (limit self)) new_datasets_metrics) (\<lambda>datasets_metrics.
      (let duration = time_at_end w - start;
           self' = self\<lparr>duration_summary := observe (duration_summary self) duration\<rparr>
       in Inr (map snd pools_metrics @ map snd datasets_metrics @ map snd volumes_metrics,
               self')))))))"

section \<open>Observing the output of a pass\<close>

text \<open>
  The label set \<open>collect\<close> gives the samples of a dataset, and the samples of a dataset
  in the yielded families: every sample of every family that carries this label set.
  \<open>named\<close> keeps the samples of one series.
\<close>

abbreviation dataset_labels :: "zfs_dataset \<Rightarrow> (string \<times> string) list" where
  "dataset_labels ds \<equiv> [(''pool'', pool_name (ds_pool ds)), (''dataset'', ds_name ds)]"

definition dataset_samples :: "metric_family list \<Rightarrow> zfs_dataset \<Rightarrow> sample list" where
  "dataset_samples out ds =
     concat (map (\<lambda>f. filter (\<lambda>s. s_labels s = [(''pool'', pool_name (ds_pool ds)), (''dataset'', ds_name ds)])
                          (m_samples f)) out)"

definition named :: "string \<Rightarrow> sample list \<Rightarrow> sample list" where
  "named nm ss = filter (\<lambda>s. s_name s = nm) ss"

text \<open>The same dataset with its \<open>atime\<close> property absent.\<close>

definition without_atime :: "zfs_dataset \<Rightarrow> zfs_dataset" where
  "without_atime ds = ds\<lparr>ds_properties := (ds_properties ds)(''atime'' := None)\<rparr>"

section \<open>Notions used in the proofs\<close>

text \<open>
  The state of a dictionary of families during the loops is described by the
  \<open>add_metric\<close> calls made so far on each key: \<open>replay f calls\<close> is the family \<open>f\<close>
  after these calls, and \<open>with_adds d A\<close> is the dictionary \<open>d\<close> after the calls \<open>A k\<close>
  on each key \<open>k\<close>.
\<close>

definition replay :: "metric_family \<Rightarrow> (string list \<times> pyval) list \<Rightarrow> metric_family" where
  "replay f calls = fold (\<lambda>(ls, v) fam. add_metric fam ls v) calls f"

definition with_adds :: "families \<Rightarrow> (string \<Rightarrow> (string list \<times> pyval) list) \<Rightarrow> families" where
  "with_adds d A = map (\<lambda>(k, f). (k, replay f (A k))) d"

text \<open>
  The values a sequence of rows produces, each with its key, up to the first one that
  raises; the values among them that belong to one key.
\<close>

fun eval_rows :: "('r \<Rightarrow> string) \<Rightarrow> ('r \<Rightarrow> error + pyval) \<Rightarrow> 'r list \<Rightarrow> error + (string \<times> pyval) list" where
  "eval_rows key val [] = Inr []"
| "eval_rows key val (r # rs) =
     and_then (val r) (\<lambda>v. and_then (eval_rows key val rs) (\<lambda>kvs. Inr ((key r, v) # kvs)))"

definition vals_for :: "string \<Rightarrow> (string \<times> pyval) list \<Rightarrow> pyval list" where
  "vals_for k kvs = map snd (filter (\<lambda>kv. fst kv = k) kvs)"

text \<open>
  The calls a loop over objects makes, each with the label values of its object, and
  the calls among them that go to one key.
\<close>

fun all_calls :: "('a \<Rightarrow> error + (string \<times> pyval) list) \<Rightarrow> ('a \<Rightarrow> string list) \<Rightarrow> 'a list \<Rightarrow>
    error + (string list \<times> string \<times> pyval) list" where
  "all_calls em lab [] = Inr []"
| "all_calls em lab (x # xs) =
     and_then (em x) (\<lambda>kvs. and_then (all_calls em lab xs) (\<lambda>rest. Inr (map (Pair (lab x)) kvs @ rest)))"

definition calls_for :: "string \<Rightarrow> (string list \<times> string \<times> pyval) list \<Rightarrow> (string list \<times> pyval) list" where
  "calls_for k cs = map (\<lambda>c. (fst c, snd (snd c))) (filter (\<lambda>c. fst (snd c) = k) cs)"

definition ds_labels :: "zfs_dataset \<Rightarrow> string list" where
  "ds_labels ds = [pool_name (ds_pool ds), ds_name ds]"

text \<open>
  What the loop body adds for one pool and for one dataset: the keys and values of its
  \<open>add_metric\<close> calls in order, or the first exception.
\<close>

definition pool_emitted :: "zfs_pool \<Rightarrow> error + (string \<times> pyval) list" where
  "pool_emitted pool =
     eval_rows (\<lambda>p. p) (\<lambda>p. and_then (property_at (pool_properties pool) p) (\<lambda>pr. Inr (parsed pr))) pmetrics"

definition emitted :: "int \<Rightarrow> zfs_dataset \<Rightarrow> error + (string \<times> pyval) list" where
  "emitted lmt ds =
     (if depth ds > lmt then Inr []
      else if depth ds = lmt then
        and_then (and_then (meta_at dsmetrics ''used_bytes'') (\<lambda>meta. getter meta ds))
          (\<lambda>v. Inr [(''used_bytes'', v)])
      else
        and_then
          (if type_name (ds_type ds) = ''VOLUME''
           then eval_rows fst (\<lambda>r. getter (snd r) ds) volmetrics
           else Inr [])
          (\<lambda>vs. and_then (eval_rows fst (\<lambda>r. getter (snd r) ds) dsmetrics) (\<lambda>ws. Inr (vs @ ws))))"

text \<open>The six samples of a dataset at full detail, and the one more of a volume.\<close>

definition six_samples :: "zfs_dataset \<Rightarrow> pyval \<Rightarrow> pyval \<Rightarrow> pyval \<Rightarrow> int \<Rightarrow> pyval \<Rightarrow> sample list" where
  "six_samples ds u d a n t =
     [\<lparr>s_name = ''zfs_dataset_used_bytes'', s_labels = dataset_labels ds, s_value = u\<rparr>,
      \<lparr>s_name = ''zfs_dataset_usedbydataset_bytes'', s_labels = dataset_labels ds, s_value = d\<rparr>,
      \<lparr>s_name = ''zfs_dataset_available_bytes'', s_labels = dataset_labels ds, s_value = a\<rparr>,
      \<lparr>s_name = ''zfs_dataset_atime_enabled'', s_labels = dataset_labels ds,
        s_value = PyInt (case ds_properties ds ''atime'' of
                           None \<Rightarrow> 0
                         | Some p \<Rightarrow> if truthy (parsed p) then 1 else 0)\<rparr>,
      \<lparr>s_name = ''zfs_dataset_creation_date'', s_labels = dataset_labels ds, s_value = PyInt n\<rparr>,
      \<lparr>s_name = ''zfs_dataset_type'', s_labels = dataset_labels ds,
        s_value = PyInt (case map_of type_codes t of None \<Rightarrow> - 1 | Some c \<Rightarrow> c)\<rparr>]"

definition volume_samples :: "zfs_dataset \<Rightarrow> sample list" where
  "volume_samples ds =
     (if ds_type ds = VOLUME
      then (case ds_properties ds ''volsize'' of
              None \<Rightarrow> []
            | Some p \<Rightarrow> [\<lparr>s_name = ''zfs_dataset_volsize_bytes'', s_labels = dataset_labels ds,
                          s_value = parsed p\<rparr>])
      else [])"

section \<open>A concrete hierarchy\<close>

text \<open>
  The pool \<open>tank\<close> with filesystems at depth 1, 2 and 3, a volume at depth 1 that has
  no \<open>atime\<close> property, a volume at depth 2, and a dataset whose \<open>type\<close> property is
  none of the four known names.
\<close>

definition tank :: zfs_pool where
  "tank = \<lparr>pool_name = ''tank'',
            pool_properties =
              [''size'' \<mapsto> \<lparr>rawvalue = ''1000'', parsed = PyInt 1000\<rparr>,
               ''allocated'' \<mapsto> \<lparr>rawvalue = ''400'', parsed = PyInt 400\<rparr>,
               ''freeing'' \<mapsto> \<lparr>rawvalue = ''0'', parsed = PyInt 0\<rparr>]\<rparr>"

definition fs_properties :: "string \<rightharpoonup> zfs_property" where
  "fs_properties =
     [''used'' \<mapsto> \<lparr>rawvalue = ''500'', parsed = PyInt 500\<rparr>,
      ''usedbydataset'' \<mapsto> \<lparr>rawvalue = ''100'', parsed = PyInt 100\<rparr>,
      ''available'' \<mapsto> \<lparr>rawvalue = ''600'', parsed = PyInt 600\<rparr>,
      ''atime'' \<mapsto> \<lparr>rawvalue = ''on'', parsed = PyBool True\<rparr>,
      ''creation'' \<mapsto> \<lparr>rawvalue = ''1700000000'', parsed = PyInt 1700000000\<rparr>,
      ''type'' \<mapsto> \<lparr>rawvalue = ''filesystem'', parsed = PyStr ''filesystem''\<rparr>]"

definition vol_properties :: "string \<rightharpoonup> zfs_property" where
  "vol_properties =
     [''used'' \<mapsto> \<lparr>rawvalue = ''500'', parsed = PyInt 500\<rparr>,
      ''usedbydataset'' \<mapsto> \<lparr>rawvalue = ''100'', parsed = PyInt 100\<rparr>,
      ''available'' \<mapsto> \<lparr>rawvalue = ''600'', parsed = PyInt 600\<rparr>,
      ''creation'' \<mapsto> \<lparr>rawvalue = ''1700000000'', parsed = PyInt 1700000000\<rparr>,
      ''type'' \<mapsto> \<lparr>rawvalue = ''volume'', parsed = PyStr ''volume''\<rparr>,
      ''volsize'' \<mapsto> \<lparr>rawvalue = ''2048'', parsed = PyInt 2048\<rparr>]"

definition tank_data :: zfs_dataset where
  "tank_data =
     \<lparr>ds_name = ''tank/data'', ds_pool = tank, ds_type = FILESYSTEM, ds_properties = fs_properties\<rparr>"

definition tank_data_logs :: zfs_dataset where
  "tank_data_logs =
     \<lparr>ds_name = ''tank/data/logs'', ds_pool = tank, ds_type = FILESYSTEM, ds_properties = fs_properties\<rparr>"

definition tank_data_logs_old :: zfs_dataset where
  "tank_data_logs_old =
     \<lparr>ds_name = ''tank/data/logs/old'', ds_pool = tank, ds_type = FILESYSTEM,
      ds_properties = fs_properties\<rparr>"

definition tank_vol1 :: zfs_dataset where
  "tank_vol1 =
     \<lparr>ds_name = ''tank/vol1'', ds_pool = tank, ds_type = VOLUME, ds_properties = vol_properties\<rparr>"

definition tank_data_vol2 :: zfs_dataset where
  "tank_data_vol2 =
     \<lparr>ds_name = ''tank/data/vol2'', ds_pool = tank, ds_type = VOLUME, ds_properties = vol_properties\<rparr>"

definition tank_other :: zfs_dataset where
  "tank_other =
     \<lparr>ds_name = ''tank/other'', ds_pool = tank, ds_type = FILESYSTEM,
      ds_properties = fs_properties(''type'' \<mapsto> \<lparr>rawvalue = ''clone'', parsed = PyStr ''clone''\<rparr>)\<rparr>"

definition scenario_datasets :: "zfs_dataset list" where
  "scenario_datasets =
     [tank_data, tank_data_logs, tank_data_logs_old, tank_vol1, tank_data_vol2, tank_other]"

definition scenario :: env where
  "scenario =
     \<lparr>time_at_start = 10, time_at_end = 12,
      pools = Inr ([tank], None),
      datasets = Inr (scenario_datasets, None)\<rparr>"





definition scenario_unavailable :: env where
  "scenario_unavailable = scenario\<lparr>pools := Inl (ZFSException ''cannot open pools'')\<rparr>"

definition scenario_interrupted :: env where
  "scenario_interrupted =
     scenario\<lparr>datasets := Inr ([tank_data], Some (ZFSException ''cannot iterate datasets''))\<rparr>"

definition scenario_clock_set_back :: env where
  "scenario_clock_set_back = scenario\<lparr>time_at_start := 12, time_at_end := 10\<rparr>"

definition scenario_empty :: env where
  "scenario_empty = scenario\<lparr>pools := Inr ([], None), datasets := Inr ([], None)\<rparr>"

section \<open>Sequencing\<close>

lemma and_then_Inr [simp]: "and_then (Inr v) f = f v"
  by (simp add: and_then_def)

lemma and_then_Inl [simp]: "and_then (Inl e) f = Inl e"
  by (simp add: and_then_def)

section \<open>Integer literals\<close>

text \<open>
  What \<open>int\<close> refuses beyond malformed numbers: padding with a control character that
  is not whitespace, and more digits than the limit.
\<close>

lemma py_int_control_padding: "py_int [CHR 0x1C, CHR ''7''] = Inl (ValueError [CHR 0x1C, CHR ''7''])"
  by (simp add: py_int_def parse_number_def int_max_str_digits_def strip_def is_space_def is_digit_def)

lemma is_digit_not_space: "is_digit c \<Longrightarrow> \<not> is_space c"
  by (auto simp: is_digit_def is_space_def Let_def)

lemma is_digit_not_sign: "is_digit c \<Longrightarrow> c \<noteq> CHR ''-'' \<and> c \<noteq> CHR ''+''"
  by (auto simp: is_digit_def)

lemma strip_digits: "\<forall>c \<in> set cs. is_digit c \<Longrightarrow> strip cs = cs"
proof -
  assume d: "\<forall>c \<in> set cs. is_digit c"
  have "dropWhile is_space xs = xs" if "\<forall>c \<in> set xs. is_digit c" for xs
    using that by (cases xs) (auto dest: is_digit_not_space)
  from this [of cs] this [of "rev cs"] d show ?thesis
    by (simp add: strip_def)
qed

lemma py_int_too_many_digits:
  assumes "\<forall>c \<in> set cs. is_digit c" and "int_max_str_digits < length cs"
  shows "py_int cs = Inl (ValueError cs)"
proof (cases cs)
  case Nil
  with assms(2) show ?thesis by simp
next
  case (Cons c cs')
  with assms(1) have c: "c \<noteq> CHR ''-''" "c \<noteq> CHR ''+''"
    using is_digit_not_sign [of c] by auto
  have "filter is_digit cs = cs" using assms(1) by (simp add: filter_id_conv)
  with assms(2) have "parse_number cs = None" by (simp add: parse_number_def)
  moreover have "strip cs = c # cs'" using strip_digits [OF assms(1)] Cons by simp
  ultimately show ?thesis
    using c Cons by (simp add: py_int_def)
qed

lemma py_int_4301_zeros: "py_int (replicate 4301 CHR ''0'') = Inl (ValueError (replicate 4301 CHR ''0''))"
  by (rule py_int_too_many_digits) (simp_all add: is_digit_def int_max_str_digits_def)

section \<open>A dictionary of families after some calls\<close>

text \<open>
  Adding a sample through the dictionary adds one call to the list of its key and
  leaves the other keys alone; the keys and their order never change.
\<close>

lemma replay_snoc: "replay f (calls @ [(ls, v)]) = add_metric (replay f calls) ls v"
  by (simp add: replay_def)

lemma replay_Nil [simp]: "replay f [] = f"
  by (simp add: replay_def)

lemma with_adds_empty [simp]: "with_adds d (\<lambda>_. []) = d"
  by (induction d) (auto simp: with_adds_def)

lemma map_of_with_adds: "map_of (with_adds d A) k = map_option (\<lambda>f. replay f (A k)) (map_of d k)"
  by (induction d) (auto simp: with_adds_def)

lemma keys_with_adds [simp]: "map fst (with_adds d A) = map fst d"
  by (induction d) (auto simp: with_adds_def)

lemma with_adds_other: "k \<notin> fst ` set d \<Longrightarrow> with_adds d (\<lambda>a. if a = k then X else A a) = with_adds d A"
  by (induction d) (auto simp: with_adds_def)

lemma dict_set_with_adds:
  "map_of d k = Some f \<Longrightarrow> distinct (map fst d) \<Longrightarrow>
   dict_set (with_adds d A) k (replay f X) = with_adds d (\<lambda>a. if a = k then X else A a)"
proof (induction d)
  case Nil
  then show ?case by simp
next
  case (Cons kv d)
  obtain k' f' where kv: "kv = (k', f')" by (cases kv)
  show ?case
  proof (cases "k' = k")
    case True
    with Cons.prems kv have "f' = f" and "k \<notin> fst ` set d" by auto
    with True kv show ?thesis
      by (simp add: with_adds_def with_adds_other [unfolded with_adds_def])
  next
    case False
    with Cons kv have "dict_set (with_adds d A) k (replay f X) = with_adds d (\<lambda>a. if a = k then X else A a)"
      by simp
    with False kv show ?thesis by (simp add: with_adds_def)
  qed
qed

lemma add_sample_with_adds:
  assumes "distinct (map fst d)"
  shows "add_sample (with_adds d A) k ls r =
     (case map_of d k of
        None \<Rightarrow> Inl (KeyError k)
      | Some f \<Rightarrow> and_then r (\<lambda>v. Inr (with_adds d (\<lambda>a. if a = k then A k @ [(ls, v)] else A a))))"
proof (cases "map_of d k")
  case None
  then show ?thesis by (simp add: add_sample_def family_at_def map_of_with_adds)
next
  case (Some f)
  show ?thesis
  proof (cases r)
    case (Inl e)
    with Some show ?thesis by (simp add: add_sample_def family_at_def map_of_with_adds)
  next
    case (Inr v)
    have "dict_set (with_adds d A) k (replay f (A k @ [(ls, v)])) =
          with_adds d (\<lambda>a. if a = k then A k @ [(ls, v)] else A a)"
      using Some assms by (rule dict_set_with_adds)
    with Some Inr show ?thesis
      by (simp add: add_sample_def family_at_def map_of_with_adds replay_snoc)
  qed
qed

text \<open>
  A loop that adds one sample per row, all with the same label values: it raises the
  first exception of the values, and otherwise has added them to their keys in order.
\<close>

lemma rows_with_adds:
  assumes "distinct (map fst d)" and "key ` set rows \<subseteq> fst ` set d"
  shows "for_items rows (\<lambda>r dm. add_sample dm (key r) ls (val r)) (with_adds d A) =
     and_then (eval_rows key val rows) (\<lambda>kvs.
       Inr (with_adds d (\<lambda>k. A k @ map (Pair ls) (vals_for k kvs))))"
  using assms(2)
proof (induction rows arbitrary: A)
  case Nil
  then show ?case by (simp add: vals_for_def)
next
  case (Cons r rows)
  from Cons.prems obtain f where f: "map_of d (key r) = Some f"
    by (metis (no_types, opaque_lifting) domD dom_map_of_conv_image_fst insert_subset list.simps(15) image_insert)
  show ?case
  proof (cases "val r")
    case (Inl e)
    with f show ?thesis by (simp add: add_sample_with_adds [OF assms(1)])
  next
    case (Inr v)
    let ?A = "\<lambda>a. if a = key r then A (key r) @ [(ls, v)] else A a"
    have step: "for_items rows (\<lambda>r dm. add_sample dm (key r) ls (val r)) (with_adds d ?A) =
       and_then (eval_rows key val rows) (\<lambda>kvs.
         Inr (with_adds d (\<lambda>k. ?A k @ map (Pair ls) (vals_for k kvs))))"
      using Cons.prems by (intro Cons.IH) simp
    have eq: "(\<lambda>k. ?A k @ map (Pair ls) (vals_for k kvs)) =
              (\<lambda>k. A k @ map (Pair ls) (vals_for k ((key r, v) # kvs)))" for kvs
      by (auto simp: fun_eq_iff vals_for_def)
    show ?thesis
      using f Inr step
      by (cases "eval_rows key val rows") (simp_all add: add_sample_with_adds [OF assms(1)] eq)
  qed
qed

lemma calls_for_append: "calls_for k (map (Pair ls) kvs @ rest) = map (Pair ls) (vals_for k kvs) @ calls_for k rest"
  by (simp add: calls_for_def vals_for_def filter_map comp_def)

lemma calls_for_Nil [simp]: "calls_for k [] = []"
  by (simp add: calls_for_def)

lemma vals_for_append: "vals_for k (xs @ ys) = vals_for k xs @ vals_for k ys"
  by (simp add: vals_for_def)

lemma vals_for_Nil [simp]: "vals_for k [] = []"
  by (simp add: vals_for_def)

text \<open>The same for a loop over objects whose body adds the samples of one object.\<close>

lemma objects_with_adds:
  assumes body: "\<And>x A. body x (with_adds d A) =
     and_then (em x) (\<lambda>kvs. Inr (with_adds d (\<lambda>k. A k @ map (Pair (lab x)) (vals_for k kvs))))"
  shows "for_items xs body (with_adds d A) =
     and_then (all_calls em lab xs) (\<lambda>cs. Inr (with_adds d (\<lambda>k. A k @ calls_for k cs)))"
proof (induction xs arbitrary: A)
  case Nil
  then show ?case by simp
next
  case (Cons x xs)
  show ?case
  proof (cases "em x")
    case (Inl e)
    then show ?thesis by (simp add: body)
  next
    case (Inr kvs)
    then show ?thesis
      by (cases "all_calls em lab xs") (simp_all add: body Cons.IH calls_for_append)
  qed
qed

section \<open>The loops of a pass\<close>

text \<open>
  The families are created with distinct keys, so every loop of \<open>collect\<close> is a loop of
  the kind above: its body raises what the getters raise, and otherwise adds what
  \<open>pool_emitted\<close> and \<open>emitted\<close> list.
\<close>

lemma keys_new_pools_metrics: "map fst new_pools_metrics = pmetrics"
  by (simp add: new_pools_metrics_def pmetrics_def)

lemma keys_new_datasets_metrics:
  "map fst new_datasets_metrics = map fst dsmetrics @ map fst volmetrics"
  by (simp add: new_datasets_metrics_def new_dataset_families_def dsmetrics_def volmetrics_def)

lemma distinct_pool_keys: "distinct (map fst new_pools_metrics)"
  by (simp add: keys_new_pools_metrics pmetrics_def)

lemma distinct_dataset_keys: "distinct (map fst new_datasets_metrics)"
  by (simp add: keys_new_datasets_metrics dsmetrics_def volmetrics_def)

lemma collect_pool_with_adds:
  "collect_pool pool (with_adds new_pools_metrics A) =
     and_then (pool_emitted pool) (\<lambda>kvs.
       Inr (with_adds new_pools_metrics (\<lambda>k. A k @ map (Pair [pool_name pool]) (vals_for k kvs))))"
  unfolding collect_pool_def pool_emitted_def
  by (rule rows_with_adds [OF distinct_pool_keys])
     (simp add: keys_new_pools_metrics [symmetric] del: keys_with_adds)

lemma collect_rows_with_adds:
  assumes "fst ` set cat \<subseteq> fst ` set new_datasets_metrics"
  shows "collect_rows cat ds (with_adds new_datasets_metrics A) =
     and_then (eval_rows fst (\<lambda>r. getter (snd r) ds) cat) (\<lambda>kvs.
       Inr (with_adds new_datasets_metrics (\<lambda>k. A k @ map (Pair (ds_labels ds)) (vals_for k kvs))))"
proof -
  have "collect_rows cat ds = for_items cat (\<lambda>r dm. add_sample dm (fst r) (ds_labels ds) (getter (snd r) ds))"
    by (simp add: fun_eq_iff collect_rows_def ds_labels_def case_prod_unfold)
  then show ?thesis
    using rows_with_adds [OF distinct_dataset_keys assms] by simp
qed

lemma dataset_keys_set:
  "fst ` set new_datasets_metrics = fst ` set dsmetrics \<union> fst ` set volmetrics"
proof -
  have "set (map fst new_datasets_metrics) = set (map fst dsmetrics @ map fst volmetrics)"
    by (simp only: keys_new_datasets_metrics)
  then show ?thesis by (simp add: image_Un)
qed

lemma used_bytes_family: "\<exists>f. map_of new_datasets_metrics ''used_bytes'' = Some f"
  by (simp add: new_datasets_metrics_def new_dataset_families_def dsmetrics_def volmetrics_def)

lemma collect_dataset_with_adds:
  "collect_dataset lmt ds (with_adds new_datasets_metrics A) =
     and_then (emitted lmt ds) (\<lambda>kvs.
       Inr (with_adds new_datasets_metrics (\<lambda>k. A k @ map (Pair (ds_labels ds)) (vals_for k kvs))))"
proof -
  consider (deep) "depth ds > lmt" | (summary) "depth ds = lmt" | (full) "depth ds < lmt"
    by linarith
  then show ?thesis
  proof cases
    case deep
    then show ?thesis by (simp add: collect_dataset_def emitted_def)
  next
    case summary
    obtain f where f: "map_of new_datasets_metrics ''used_bytes'' = Some f"
      using used_bytes_family by blast
    let ?r = "and_then (meta_at dsmetrics ''used_bytes'') (\<lambda>meta. getter meta ds)"
    have "(\<lambda>a. if a = ''used_bytes'' then A ''used_bytes'' @ [(ds_labels ds, v)] else A a) =
          (\<lambda>k. A k @ map (Pair (ds_labels ds)) (vals_for k [(''used_bytes'', v)]))" for v
      by (auto simp: fun_eq_iff vals_for_def)
    with summary f show ?thesis
      by (cases ?r)
         (simp_all add: collect_dataset_def emitted_def add_sample_with_adds [OF distinct_dataset_keys]
            ds_labels_def [symmetric])
  next
    case full
    have sub1: "fst ` set volmetrics \<subseteq> fst ` set new_datasets_metrics"
      and sub2: "fst ` set dsmetrics \<subseteq> fst ` set new_datasets_metrics"
      by (simp_all add: dataset_keys_set)
    show ?thesis
    proof (cases "type_name (ds_type ds) = ''VOLUME''")
      case True
      show ?thesis
      proof (cases "eval_rows fst (\<lambda>r. getter (snd r) ds) volmetrics")
        case (Inl e)
        with full True show ?thesis
          by (simp add: collect_dataset_def emitted_def collect_rows_with_adds [OF sub1])
      next
        case (Inr vs)
        with full True show ?thesis
          by (cases "eval_rows fst (\<lambda>r. getter (snd r) ds) dsmetrics")
             (simp_all add: collect_dataset_def emitted_def collect_rows_with_adds [OF sub1]
                collect_rows_with_adds [OF sub2] vals_for_append)
      qed
    next
      case False
      with full show ?thesis
        by (cases "eval_rows fst (\<lambda>r. getter (snd r) ds) dsmetrics")
           (simp_all add: collect_dataset_def emitted_def collect_rows_with_adds [OF sub2])
    qed
  qed
qed

lemma pools_loop:
  "for_items pls collect_pool new_pools_metrics =
     and_then (all_calls pool_emitted (\<lambda>pool. [pool_name pool]) pls) (\<lambda>cs.
       Inr (with_adds new_pools_metrics (\<lambda>k. calls_for k cs)))"
  using objects_with_adds [of collect_pool new_pools_metrics pool_emitted "\<lambda>pool. [pool_name pool]" pls "\<lambda>_. []",
      OF collect_pool_with_adds]
  by simp

lemma datasets_loop:
  "for_items dss (collect_dataset lmt) new_datasets_metrics =
     and_then (all_calls (emitted lmt) ds_labels dss) (\<lambda>cs.
       Inr (with_adds new_datasets_metrics (\<lambda>k. calls_for k cs)))"
  using objects_with_adds [of "collect_dataset lmt" new_datasets_metrics "emitted lmt" ds_labels dss "\<lambda>_. []",
      OF collect_dataset_with_adds]
  by simp

section \<open>The result of a pass\<close>

text \<open>
  A family keeps its name, help text and label names; its samples are one per call.
  A pass completes exactly when both enumerations come to their end and no body raises,
  and then yields the families with the calls of the two loops and has observed the
  duration once.
\<close>

lemma replay_fields [simp]:
  "m_name (replay f calls) = m_name f"
  "m_documentation (replay f calls) = m_documentation f"
  "m_labelnames (replay f calls) = m_labelnames f"
  by (induction calls rule: rev_induct) (simp_all add: replay_def add_metric_def split_beta)

lemma replay_samples:
  "m_samples (replay f calls) =
     m_samples f @ map (\<lambda>c. \<lparr>s_name = m_name f, s_labels = zip (m_labelnames f) (fst c), s_value = snd c\<rparr>) calls"
proof (induction calls rule: rev_induct)
  case Nil
  then show ?case by simp
next
  case (snoc c calls)
  obtain ls v where c: "c = (ls, v)" by (cases c)
  show ?case
    unfolding c replay_snoc using snoc by (simp add: add_metric_def)
qed

lemma collect_Inr:
  "collect self w = Inr (out, self') \<longleftrightarrow>
     (\<exists>pls dss pcs dcs.
        pools w = Inr (pls, None) \<and> datasets w = Inr (dss, None) \<and>
        all_calls pool_emitted (\<lambda>pool. [pool_name pool]) pls = Inr pcs \<and>
        all_calls (emitted (limit self)) ds_labels dss = Inr dcs \<and>
        out = map snd (with_adds new_pools_metrics (\<lambda>k. calls_for k pcs)) @
              map snd (with_adds new_datasets_metrics (\<lambda>k. calls_for k dcs)) \<and>
        self' = self\<lparr>duration_summary := duration_summary self @ [time_at_end w - time_at_start w]\<rparr>)"
  unfolding collect_def for_each_def pools_loop datasets_loop observe_def Let_def
  by (auto simp: and_then_def split: sum.splits option.splits prod.splits)

text \<open>
  When the loop over the objects completes, every object's body has completed, every
  call carries the label values of some object, and, the label values being distinct,
  the calls with the label values of one object are its own.
\<close>

lemma all_calls_Inr_member:
  "all_calls em lab xs = Inr cs \<Longrightarrow> x \<in> set xs \<Longrightarrow> \<exists>kvs. em x = Inr kvs"
  by (induction xs arbitrary: cs) (auto simp: and_then_def split: sum.splits)

lemma all_calls_Inr_iff:
  "(\<exists>cs. all_calls em lab xs = Inr cs) \<longleftrightarrow> (\<forall>x \<in> set xs. \<exists>kvs. em x = Inr kvs)"
  by (induction xs) (auto simp: and_then_def split: sum.splits)

lemma all_calls_labels:
  "all_calls em lab xs = Inr cs \<Longrightarrow> c \<in> set cs \<Longrightarrow> fst c \<in> lab ` set xs"
  by (induction xs arbitrary: cs) (auto simp: and_then_def split: sum.splits)

lemma all_calls_filter:
  "all_calls em lab xs = Inr cs \<Longrightarrow> distinct (map lab xs) \<Longrightarrow> x \<in> set xs \<Longrightarrow> em x = Inr kvs \<Longrightarrow>
   filter (\<lambda>c. fst c = lab x) cs = map (Pair (lab x)) kvs"
proof (induction xs arbitrary: cs)
  case Nil
  then show ?case by simp
next
  case (Cons y ys)
  from Cons.prems(1) obtain kvs' rest where y: "em y = Inr kvs'" and rest: "all_calls em lab ys = Inr rest"
    and cs: "cs = map (Pair (lab y)) kvs' @ rest"
    by (auto simp: and_then_def split: sum.splits)
  show ?case
  proof (cases "x = y")
    case True
    have "filter (\<lambda>c. fst c = lab y) rest = []"
      using all_calls_labels [OF rest] Cons.prems(2) by (auto simp: filter_empty_conv)
    with True y cs Cons.prems(4) show ?thesis by (simp add: filter_map comp_def)
  next
    case False
    with Cons.prems have x: "x \<in> set ys" and ne: "lab y \<noteq> lab x" by auto
    have "filter (\<lambda>c. fst c = lab x) rest = map (Pair (lab x)) kvs"
      using Cons.IH [OF rest _ x Cons.prems(4)] Cons.prems(2) by simp
    with ne cs show ?thesis by (simp add: filter_map comp_def)
  qed
qed

text \<open>The yielded families, written out; which of their samples belong to a dataset.\<close>

lemma new_pools_metrics_eq:
  "new_pools_metrics =
     map (\<lambda>p. (p, GaugeMetricFamily (''zfs_pool_'' @ p @ ''_bytes'') (''ZFS Pool '' @ p @ '' in bytes'') [''pool'']))
       pmetrics"
  by (simp add: new_pools_metrics_def pmetrics_def)

lemma new_datasets_metrics_eq:
  "new_datasets_metrics =
     map (\<lambda>r. (fst r, GaugeMetricFamily (''zfs_dataset_'' @ fst r) (desc (snd r)) [''pool'', ''dataset'']))
       (dsmetrics @ volmetrics)"
  by (simp add: new_datasets_metrics_def new_dataset_families_def dsmetrics_def volmetrics_def)

lemma pool_families:
  "map snd (with_adds new_pools_metrics C) =
     map (\<lambda>p. replay (GaugeMetricFamily (''zfs_pool_'' @ p @ ''_bytes'') (''ZFS Pool '' @ p @ '' in bytes'') [''pool'']) (C p))
       pmetrics"
  by (simp add: new_pools_metrics_eq with_adds_def comp_def)

lemma dataset_families:
  "map snd (with_adds new_datasets_metrics C) =
     map (\<lambda>r. replay (GaugeMetricFamily (''zfs_dataset_'' @ fst r) (desc (snd r)) [''pool'', ''dataset'']) (C (fst r)))
       (dsmetrics @ volmetrics)"
  by (simp add: new_datasets_metrics_eq with_adds_def comp_def)

lemma Gauge_fields [simp]:
  "m_name (GaugeMetricFamily nm doc lns) = nm"
  "m_documentation (GaugeMetricFamily nm doc lns) = doc"
  "m_labelnames (GaugeMetricFamily nm doc lns) = lns"
  "m_samples (GaugeMetricFamily nm doc lns) = []"
  by (simp_all add: GaugeMetricFamily_def)

lemma calls_for_filter:
  "filter (\<lambda>c. fst c = l) (calls_for k cs) = calls_for k (filter (\<lambda>c. fst c = l) cs)"
  by (induction cs) (auto simp: calls_for_def)

lemma calls_for_labels: "c \<in> set (calls_for k cs) \<Longrightarrow> \<exists>c' \<in> set cs. fst c' = fst c"
  by (force simp: calls_for_def)

lemma calls_for_map_Pair: "calls_for k (map (Pair l) kvs) = map (Pair l) (vals_for k kvs)"
  using calls_for_append [of k l kvs "[]"] by simp

lemma pool_family_no_dataset_samples:
  "filter (\<lambda>s. s_labels s = [a, b]) (m_samples (replay (GaugeMetricFamily nm doc [lname]) calls)) = []"
proof -
  have "zip [lname] ls \<noteq> [a, b]" for ls :: "string list"
    by (cases ls) simp_all
  then show ?thesis
    by (simp add: replay_samples filter_empty_conv)
qed

lemma dataset_family_samples:
  assumes labels: "\<And>c. c \<in> set cs \<Longrightarrow> fst c \<in> ds_labels ` set dss"
    and mine: "filter (\<lambda>c. fst c = ds_labels ds) cs = map (Pair (ds_labels ds)) kvs"
  shows "filter (\<lambda>s. s_labels s = [(''pool'', pool_name (ds_pool ds)), (''dataset'', ds_name ds)])
           (m_samples (replay (GaugeMetricFamily nm doc [''pool'', ''dataset'']) (calls_for k cs))) =
         map (\<lambda>v. \<lparr>s_name = nm,
                    s_labels = [(''pool'', pool_name (ds_pool ds)), (''dataset'', ds_name ds)],
                    s_value = v\<rparr>) (vals_for k kvs)"
proof -
  let ?L = "[(''pool'', pool_name (ds_pool ds)), (''dataset'', ds_name ds)]"
  let ?mk = "\<lambda>c. \<lparr>s_name = nm, s_labels = zip [''pool'', ''dataset''] (fst c), s_value = snd c\<rparr>"
  have same: "(s_labels (?mk c) = ?L) = (fst c = ds_labels ds)" if "c \<in> set (calls_for k cs)" for c
  proof -
    from that obtain c' where "c' \<in> set cs" and "fst c' = fst c"
      using calls_for_labels by blast
    with labels [of c'] obtain d where "fst c = ds_labels d" by auto
    then show ?thesis by (auto simp: ds_labels_def)
  qed
  have "filter (\<lambda>s. s_labels s = ?L) (map ?mk (calls_for k cs)) =
        map ?mk (filter (\<lambda>c. s_labels (?mk c) = ?L) (calls_for k cs))"
    by (simp add: filter_map comp_def)
  also have "\<dots> = map ?mk (filter (\<lambda>c. fst c = ds_labels ds) (calls_for k cs))"
    using same by (intro arg_cong [where f = "map ?mk"] filter_cong) auto
  also have "\<dots> = map ?mk (map (Pair (ds_labels ds)) (vals_for k kvs))"
    by (simp only: calls_for_filter mine calls_for_map_Pair)
  also have "\<dots> = map (\<lambda>v. \<lparr>s_name = nm, s_labels = ?L, s_value = v\<rparr>) (vals_for k kvs)"
    by (simp add: ds_labels_def comp_def)
  finally show ?thesis by (simp add: replay_samples)
qed

lemma distinct_ds_labels: "distinct (map ds_name dss) \<Longrightarrow> distinct (map ds_labels dss)"
proof -
  assume "distinct (map ds_name dss)"
  then have "distinct dss" and inj: "inj_on ds_name (set dss)"
    by (simp_all add: distinct_map)
  have "inj_on ds_labels (set dss)"
    by (rule inj_onI) (use inj in \<open>auto simp: ds_labels_def dest: inj_onD\<close>)
  with \<open>distinct dss\<close> show ?thesis by (simp add: distinct_map)
qed

lemma dataset_samples_collect:
  assumes "collect self w = Inr (out, self')" and "datasets w = Inr (dss, fl)"
    and "ds \<in> set dss" and "distinct (map ds_name dss)"
  shows "\<exists>kvs. emitted (limit self) ds = Inr kvs \<and>
     dataset_samples out ds =
       concat (map (\<lambda>r. map (\<lambda>v. \<lparr>s_name = ''zfs_dataset_'' @ fst r,
                                     s_labels = [(''pool'', pool_name (ds_pool ds)), (''dataset'', ds_name ds)],
                                     s_value = v\<rparr>) (vals_for (fst r) kvs))
                 (dsmetrics @ volmetrics))"
proof -
  from assms(1,2) obtain pls pcs dcs where
    dcs: "all_calls (emitted (limit self)) ds_labels dss = Inr dcs" and
    out: "out = map snd (with_adds new_pools_metrics (\<lambda>k. calls_for k pcs)) @
               map snd (with_adds new_datasets_metrics (\<lambda>k. calls_for k dcs))"
    by (auto simp: collect_Inr)
  from all_calls_Inr_member [OF dcs assms(3)] obtain kvs where kvs: "emitted (limit self) ds = Inr kvs"
    by blast
  have mine: "filter (\<lambda>c. fst c = ds_labels ds) dcs = map (Pair (ds_labels ds)) kvs"
    using dcs distinct_ds_labels [OF assms(4)] assms(3) kvs by (rule all_calls_filter)
  have labels: "\<And>c. c \<in> set dcs \<Longrightarrow> fst c \<in> ds_labels ` set dss"
    using dcs by (rule all_calls_labels)
  have "dataset_samples out ds =
       concat (map (\<lambda>r. map (\<lambda>v. \<lparr>s_name = ''zfs_dataset_'' @ fst r,
                                     s_labels = [(''pool'', pool_name (ds_pool ds)), (''dataset'', ds_name ds)],
                                     s_value = v\<rparr>) (vals_for (fst r) kvs))
                 (dsmetrics @ volmetrics))"
    unfolding dataset_samples_def out pool_families dataset_families
    by (simp add: comp_def pool_family_no_dataset_samples dataset_family_samples [OF labels mine])
  with kvs show ?thesis by blast
qed

section \<open>What one dataset adds\<close>

text \<open>The three cases of the loop body, with the catalogues written out.\<close>

lemma type_name_VOLUME [simp]: "(type_name t = ''VOLUME'') = (t = VOLUME)"
  by (cases t) simp_all

lemma emitted_deep: "lmt < depth ds \<Longrightarrow> emitted lmt ds = Inr []"
  by (simp add: emitted_def)

lemma emitted_summary:
  "depth ds = lmt \<Longrightarrow> emitted lmt ds =
     and_then (property_at (ds_properties ds) ''used'') (\<lambda>p. Inr [(''used_bytes'', parsed p)])"
  by (simp add: emitted_def meta_at_def dsmetrics_def and_then_def split: sum.splits)

lemma emitted_full:
  "depth ds < lmt \<Longrightarrow> emitted lmt ds =
     and_then (if ds_type ds = VOLUME
               then and_then (property_at (ds_properties ds) ''volsize'') (\<lambda>p. Inr [(''volsize_bytes'', parsed p)])
               else Inr []) (\<lambda>vs.
     and_then (property_at (ds_properties ds) ''used'') (\<lambda>pu.
     and_then (property_at (ds_properties ds) ''usedbydataset'') (\<lambda>pd.
     and_then (property_at (ds_properties ds) ''available'') (\<lambda>pa.
     and_then (property_at (ds_properties ds) ''creation'') (\<lambda>pc.
     and_then (py_int (rawvalue pc)) (\<lambda>n.
     and_then (property_at (ds_properties ds) ''type'') (\<lambda>pt.
     Inr (vs @
       [(''used_bytes'', parsed pu),
        (''usedbydataset_bytes'', parsed pd),
        (''available_bytes'', parsed pa),
        (''atime_enabled'', PyInt (case ds_properties ds ''atime'' of None \<Rightarrow> 0
                                   | Some p \<Rightarrow> if truthy (parsed p) then 1 else 0)),
        (''creation_date'', PyInt n),
        (''type'', PyInt (case map_of type_codes (parsed pt) of None \<Rightarrow> - 1 | Some c \<Rightarrow> c))]))))))))"
  by (simp add: emitted_def dsmetrics_def volmetrics_def and_then_def split: sum.splits)

lemma type_code_cases:
  "(case map_of type_codes v of None \<Rightarrow> - 1 | Some c \<Rightarrow> c) =
     (if v = PyStr ''filesystem'' then 0
      else if v = PyStr ''volume'' then 1
      else if v = PyStr ''snapshot'' then 2
      else if v = PyStr ''bookmark'' then 3
      else - 1)"
  by (simp add: type_codes_def)

lemma property_at_Inr: "(property_at props k = Inr p) = (props k = Some p)"
  by (simp add: property_at_def split: option.splits)

lemma and_then_eq_Inr: "(and_then r f = Inr y) = (\<exists>v. r = Inr v \<and> f v = Inr y)"
  by (cases r) simp_all

lemma named_Cons [simp]:
  "named nm (s # ss) = (if s_name s = nm then s # named nm ss else named nm ss)"
  by (simp add: named_def)

lemma named_Nil [simp]: "named nm [] = []"
  by (simp add: named_def)

lemma named_append [simp]: "named nm (xs @ ys) = named nm xs @ named nm ys"
  by (simp add: named_def)

section \<open>The samples of one dataset in a completed pass\<close>

lemma deep_samples:
  assumes "collect self w = Inr (out, self')" and "datasets w = Inr (dss, fl)"
    and "ds \<in> set dss" and "distinct (map ds_name dss)" and "limit self < depth ds"
  shows "dataset_samples out ds = []"
  using dataset_samples_collect [OF assms(1-4)] assms(5) by (auto simp: emitted_deep)

lemma summary_samples:
  assumes "collect self w = Inr (out, self')" and "datasets w = Inr (dss, fl)"
    and "ds \<in> set dss" and "distinct (map ds_name dss)" and "depth ds = limit self"
  shows "\<exists>p. ds_properties ds ''used'' = Some p \<and>
     dataset_samples out ds =
       [\<lparr>s_name = ''zfs_dataset_used_bytes'', s_labels = dataset_labels ds, s_value = parsed p\<rparr>]"
proof -
  from dataset_samples_collect [OF assms(1-4)] obtain kvs where
    kvs: "emitted (limit self) ds = Inr kvs" and
    out: "dataset_samples out ds =
       concat (map (\<lambda>r. map (\<lambda>v. \<lparr>s_name = ''zfs_dataset_'' @ fst r, s_labels = dataset_labels ds,
                                     s_value = v\<rparr>) (vals_for (fst r) kvs))
                 (dsmetrics @ volmetrics))"
    by blast
  from kvs assms(5) obtain p where p: "ds_properties ds ''used'' = Some p" and "kvs = [(''used_bytes'', parsed p)]"
    by (auto simp: emitted_summary and_then_eq_Inr property_at_Inr)
  then show ?thesis
    unfolding out by (simp add: dsmetrics_def volmetrics_def vals_for_def)
qed

lemma full_samples:
  assumes "collect self w = Inr (out, self')" and "datasets w = Inr (dss, fl)"
    and "ds \<in> set dss" and "distinct (map ds_name dss)" and "depth ds < limit self"
  shows "\<exists>pu pd pa pc n pt.
     ds_properties ds ''used'' = Some pu \<and>
     ds_properties ds ''usedbydataset'' = Some pd \<and>
     ds_properties ds ''available'' = Some pa \<and>
     ds_properties ds ''creation'' = Some pc \<and> py_int (rawvalue pc) = Inr n \<and>
     ds_properties ds ''type'' = Some pt \<and>
     (ds_type ds = VOLUME \<longrightarrow> ds_properties ds ''volsize'' \<noteq> None) \<and>
     dataset_samples out ds =
       six_samples ds (parsed pu) (parsed pd) (parsed pa) n (parsed pt) @ volume_samples ds"
proof -
  from dataset_samples_collect [OF assms(1-4)] obtain kvs where
    kvs: "emitted (limit self) ds = Inr kvs" and
    out: "dataset_samples out ds =
       concat (map (\<lambda>r. map (\<lambda>v. \<lparr>s_name = ''zfs_dataset_'' @ fst r, s_labels = dataset_labels ds,
                                     s_value = v\<rparr>) (vals_for (fst r) kvs))
                 (dsmetrics @ volmetrics))"
    by blast
  show ?thesis
  proof (cases "ds_type ds = VOLUME")
    case True
    with kvs assms(5) show ?thesis
      unfolding out six_samples_def volume_samples_def
      by (auto simp: emitted_full and_then_eq_Inr property_at_Inr dsmetrics_def volmetrics_def vals_for_def)
  next
    case False
    with kvs assms(5) show ?thesis
      unfolding out six_samples_def volume_samples_def
      by (auto simp: emitted_full and_then_eq_Inr property_at_Inr dsmetrics_def volmetrics_def vals_for_def)
  qed
qed

lemma full_samplesE:
  assumes "collect self w = Inr (out, self')" and "datasets w = Inr (dss, fl)"
    and "ds \<in> set dss" and "distinct (map ds_name dss)" and "depth ds < limit self"
  obtains pu pd pa pc n pt where
    "ds_properties ds ''used'' = Some pu" and
    "ds_properties ds ''usedbydataset'' = Some pd" and
    "ds_properties ds ''available'' = Some pa" and
    "ds_properties ds ''creation'' = Some pc" and
    "py_int (rawvalue pc) = Inr n" and
    "ds_properties ds ''type'' = Some pt" and
    "ds_type ds = VOLUME \<longrightarrow> ds_properties ds ''volsize'' \<noteq> None" and
    "dataset_samples out ds =
       six_samples ds (parsed pu) (parsed pd) (parsed pa) n (parsed pt) @ volume_samples ds"
proof -
  from full_samples [OF assms] show thesis
    by (elim exE conjE) (rule that)
qed

lemma named_six_samples:
  "named ''zfs_dataset_atime_enabled'' (six_samples ds u d a n t) =
     [\<lparr>s_name = ''zfs_dataset_atime_enabled'', s_labels = dataset_labels ds,
       s_value = PyInt (case ds_properties ds ''atime'' of
                          None \<Rightarrow> 0
                        | Some p \<Rightarrow> if truthy (parsed p) then 1 else 0)\<rparr>]"
  "named ''zfs_dataset_type'' (six_samples ds u d a n t) =
     [\<lparr>s_name = ''zfs_dataset_type'', s_labels = dataset_labels ds,
       s_value = PyInt (case map_of type_codes t of None \<Rightarrow> - 1 | Some c \<Rightarrow> c)\<rparr>]"
  "named ''zfs_dataset_volsize_bytes'' (six_samples ds u d a n t) = []"
  by (simp_all add: six_samples_def)

lemma named_volume_samples:
  "named ''zfs_dataset_atime_enabled'' (volume_samples ds) = []"
  "named ''zfs_dataset_type'' (volume_samples ds) = []"
  "named ''zfs_dataset_volsize_bytes'' (volume_samples ds) = volume_samples ds"
  by (simp_all add: volume_samples_def split: option.splits)

lemma names_six_samples:
  "map s_name (six_samples ds u d a n t) =
     [''zfs_dataset_used_bytes'', ''zfs_dataset_usedbydataset_bytes'',
      ''zfs_dataset_available_bytes'', ''zfs_dataset_atime_enabled'',
      ''zfs_dataset_creation_date'', ''zfs_dataset_type'']"
  by (simp add: six_samples_def)

lemma names_volume_samples:
  "ds_type ds = VOLUME \<longrightarrow> ds_properties ds ''volsize'' \<noteq> None \<Longrightarrow>
   map s_name (volume_samples ds) = (if ds_type ds = VOLUME then [''zfs_dataset_volsize_bytes''] else [])"
  by (auto simp: volume_samples_def)

lemma full_atime_sample:
  assumes "collect self w = Inr (out, self')" and "datasets w = Inr (dss, fl)"
    and "ds \<in> set dss" and "distinct (map ds_name dss)" and "depth ds < limit self"
  shows "named ''zfs_dataset_atime_enabled'' (dataset_samples out ds) =
       [\<lparr>s_name = ''zfs_dataset_atime_enabled'', s_labels = dataset_labels ds,
         s_value = PyInt (case ds_properties ds ''atime'' of
                            None \<Rightarrow> 0
                          | Some p \<Rightarrow> if truthy (parsed p) then 1 else 0)\<rparr>]"
proof -
  from assms obtain pu pd pa pc n pt where
    "ds_properties ds ''used'' = Some pu" and
    "ds_properties ds ''usedbydataset'' = Some pd" and
    "ds_properties ds ''available'' = Some pa" and
    "ds_properties ds ''creation'' = Some pc" and
    "py_int (rawvalue pc) = Inr n" and
    "ds_properties ds ''type'' = Some pt" and
    "ds_type ds = VOLUME \<longrightarrow> ds_properties ds ''volsize'' \<noteq> None" and
    out: "dataset_samples out ds =
       six_samples ds (parsed pu) (parsed pd) (parsed pa) n (parsed pt) @ volume_samples ds"
    by (rule full_samplesE)
  show ?thesis
    unfolding out by (simp only: named_append named_six_samples named_volume_samples append_Nil2)
qed

section \<open>When a pass completes\<close>

lemma emitted_Inr_iff:
  "(\<exists>kvs. emitted lmt ds = Inr kvs) \<longleftrightarrow>
     (lmt < depth ds \<or>
      (depth ds = lmt \<and> ds_properties ds ''used'' \<noteq> None) \<or>
      (depth ds < lmt \<and>
       ds_properties ds ''used'' \<noteq> None \<and>
       ds_properties ds ''usedbydataset'' \<noteq> None \<and>
       ds_properties ds ''available'' \<noteq> None \<and>
       (\<exists>p n. ds_properties ds ''creation'' = Some p \<and> py_int (rawvalue p) = Inr n) \<and>
       ds_properties ds ''type'' \<noteq> None \<and>
       (ds_type ds = VOLUME \<longrightarrow> ds_properties ds ''volsize'' \<noteq> None)))"
proof -
  consider (deep) "lmt < depth ds" | (summary) "depth ds = lmt" | (full) "depth ds < lmt"
    by linarith
  then show ?thesis
  proof cases
    case deep
    then show ?thesis by (simp add: emitted_deep)
  next
    case summary
    then show ?thesis
      by (auto simp: emitted_summary and_then_eq_Inr property_at_Inr)
  next
    case full
    have vol: "(\<exists>vs. (if ds_type ds = VOLUME
                 then and_then (property_at (ds_properties ds) ''volsize'') (\<lambda>p. Inr [(''volsize_bytes'', parsed p)])
                 else Inr []) = Inr vs) \<longleftrightarrow>
               (ds_type ds = VOLUME \<longrightarrow> ds_properties ds ''volsize'' \<noteq> None)"
      by (auto simp: and_then_eq_Inr property_at_Inr)
    have "(\<exists>kvs. emitted lmt ds = Inr kvs) \<longleftrightarrow>
          (ds_type ds = VOLUME \<longrightarrow> ds_properties ds ''volsize'' \<noteq> None) \<and>
          (\<exists>pu. ds_properties ds ''used'' = Some pu) \<and>
          (\<exists>pd. ds_properties ds ''usedbydataset'' = Some pd) \<and>
          (\<exists>pa. ds_properties ds ''available'' = Some pa) \<and>
          (\<exists>pc n. ds_properties ds ''creation'' = Some pc \<and> py_int (rawvalue pc) = Inr n) \<and>
          (\<exists>pt. ds_properties ds ''type'' = Some pt)"
      unfolding vol [symmetric]
      by (simp add: emitted_full [OF full] and_then_eq_Inr property_at_Inr) blast
    with full show ?thesis by auto
  qed
qed

lemma collect_Inl_or_Inr:
  "(\<exists>e. collect self w = Inl e) \<or> (\<exists>out self'. collect self w = Inr (out, self'))"
  by (cases "collect self w") auto

lemma collect_needs_every_dataset:
  assumes "collect self w = Inr (out, self')" and "datasets w = Inr (dss, fl)" and "ds \<in> set dss"
  shows "\<exists>kvs. emitted (limit self) ds = Inr kvs"
proof -
  from assms(1,2) obtain dcs where "all_calls (emitted (limit self)) ds_labels dss = Inr dcs"
    by (auto simp: collect_Inr)
  from all_calls_Inr_member [OF this assms(3)] show ?thesis .
qed

lemma collect_completes:
  assumes "pools w = Inr (pls, None)" and "datasets w = Inr (dss, None)"
    and "\<exists>pcs. all_calls pool_emitted (\<lambda>pool. [pool_name pool]) pls = Inr pcs"
    and "\<forall>ds \<in> set dss. \<exists>kvs. emitted (limit self) ds = Inr kvs"
  shows "\<exists>out. collect self w =
     Inr (out, self\<lparr>duration_summary := duration_summary self @ [time_at_end w - time_at_start w]\<rparr>)"
proof -
  from assms(4) obtain dcs where "all_calls (emitted (limit self)) ds_labels dss = Inr dcs"
    using all_calls_Inr_iff [of "emitted (limit self)" ds_labels dss] by blast
  with assms(1-3) show ?thesis
    unfolding collect_Inr by blast
qed




lemma pool_emitted_Inr_iff:
  "(\<exists>kvs. pool_emitted pool = Inr kvs) \<longleftrightarrow> (\<forall>p \<in> set pmetrics. pool_properties pool p \<noteq> None)"
  by (auto simp: pool_emitted_def pmetrics_def and_then_eq_Inr property_at_Inr)

text \<open>
  A pass completes exactly when both enumerations succeed, every pool has its three
  properties and no getter raises on a dataset within the depth limit.
\<close>

lemma collect_completes_iff:
  "(\<exists>out self'. collect self w = Inr (out, self')) \<longleftrightarrow>
     (\<exists>pls dss. pools w = Inr (pls, None) \<and> datasets w = Inr (dss, None) \<and>
        (\<forall>pool \<in> set pls. \<forall>p \<in> set pmetrics. pool_properties pool p \<noteq> None) \<and>
        (\<forall>ds \<in> set dss. \<exists>kvs. emitted (limit self) ds = Inr kvs))"
proof -
  have "(\<exists>out self'. collect self w = Inr (out, self')) \<longleftrightarrow>
     (\<exists>pls dss. pools w = Inr (pls, None) \<and> datasets w = Inr (dss, None) \<and>
        (\<exists>pcs. all_calls pool_emitted (\<lambda>pool. [pool_name pool]) pls = Inr pcs) \<and>
        (\<exists>dcs. all_calls (emitted (limit self)) ds_labels dss = Inr dcs))"
    unfolding collect_Inr by blast
  then show ?thesis
    unfolding all_calls_Inr_iff pool_emitted_Inr_iff .
qed

text \<open>The exclusion set has no influence on a pass.\<close>

lemma collect_ignores_exclude:
  "collect (self\<lparr>exclude := X\<rparr>) w =
     (case collect self w of
        Inl e \<Rightarrow> Inl e
      | Inr (out, self') \<Rightarrow> Inr (out, self'\<lparr>exclude := X\<rparr>))"
  by (simp add: collect_def Let_def and_then_def split: sum.splits)

lemma depth_without_atime [simp]: "depth (without_atime ds) = depth ds"
  by (simp add: depth_def without_atime_def)

lemma without_atime_fields [simp]:
  "ds_name (without_atime ds) = ds_name ds"
  "ds_pool (without_atime ds) = ds_pool ds"
  "ds_type (without_atime ds) = ds_type ds"
  "ds_properties (without_atime ds) ''atime'' = None"
  by (simp_all add: without_atime_def)

lemma without_atime_other: "k \<noteq> ''atime'' \<Longrightarrow> ds_properties (without_atime ds) k = ds_properties ds k"
  by (simp add: without_atime_def)

lemma emitted_without_atime:
  "(\<exists>kvs. emitted lmt (without_atime ds) = Inr kvs) \<longleftrightarrow> (\<exists>kvs. emitted lmt ds = Inr kvs)"
  unfolding emitted_Inr_iff by (simp add: without_atime_other)

lemma replay_samples_wellformed:
  assumes "\<And>c. c \<in> set calls \<Longrightarrow> length (fst c) = length lns"
    and "s \<in> set (m_samples (replay (GaugeMetricFamily nm doc lns) calls))"
  shows "s_name s = nm \<and> map fst (s_labels s) = lns"
  using assms by (auto simp: replay_samples)

text \<open>Where the samples of the pools land, and whose labels the dataset samples carry.\<close>

lemma pool_emitted_values:
  "pool_emitted pool = Inr kvs \<Longrightarrow> p \<in> set pmetrics \<Longrightarrow>
   map Some (vals_for p kvs) = [map_option parsed (pool_properties pool p)]"
  by (auto simp: pool_emitted_def pmetrics_def and_then_eq_Inr property_at_Inr vals_for_def)

lemma pool_calls:
  "all_calls pool_emitted lab pls = Inr pcs \<Longrightarrow> p \<in> set pmetrics \<Longrightarrow>
   map (\<lambda>c. (fst c, Some (snd c))) (calls_for p pcs) =
     map (\<lambda>pool. (lab pool, map_option parsed (pool_properties pool p))) pls"
proof (induction pls arbitrary: pcs)
  case Nil
  then show ?case by simp
next
  case (Cons pool pls)
  from Cons.prems(1) obtain kvs rest where
    kvs: "pool_emitted pool = Inr kvs" and rest: "all_calls pool_emitted lab pls = Inr rest" and
    pcs: "pcs = map (Pair (lab pool)) kvs @ rest"
    by (auto simp: and_then_def split: sum.splits)
  have "map (\<lambda>c. (fst c, Some (snd c))) (map (Pair (lab pool)) (vals_for p kvs)) =
        map (Pair (lab pool)) (map Some (vals_for p kvs))"
    by (simp add: comp_def)
  also have "\<dots> = [(lab pool, map_option parsed (pool_properties pool p))]"
    by (simp add: pool_emitted_values [OF kvs Cons.prems(2)])
  finally show ?case
    using Cons.IH [OF rest Cons.prems(2)] by (simp add: pcs calls_for_append)
qed

lemma pool_family_samples:
  assumes "all_calls pool_emitted (\<lambda>pool. [pool_name pool]) pls = Inr pcs" and "p \<in> set pmetrics"
  shows "map (\<lambda>s. (s_name s, s_labels s, Some (s_value s)))
           (m_samples (replay (GaugeMetricFamily nm doc [''pool'']) (calls_for p pcs))) =
         map (\<lambda>pool. (nm, [(''pool'', pool_name pool)], map_option parsed (pool_properties pool p))) pls"
proof -
  have "map (\<lambda>s. (s_name s, s_labels s, Some (s_value s)))
           (m_samples (replay (GaugeMetricFamily nm doc [''pool'']) (calls_for p pcs))) =
        map (\<lambda>c. (nm, zip [''pool''] (fst c), snd c)) (map (\<lambda>c. (fst c, Some (snd c))) (calls_for p pcs))"
    by (simp add: replay_samples comp_def)
  also have "\<dots> = map (\<lambda>pool. (nm, [(''pool'', pool_name pool)], map_option parsed (pool_properties pool p))) pls"
    unfolding pool_calls [OF assms] by (simp add: comp_def)
  finally show ?thesis .
qed

lemma dataset_family_labels:
  assumes "all_calls em ds_labels dss = Inr dcs"
    and "s \<in> set (m_samples (replay (GaugeMetricFamily nm doc [''pool'', ''dataset'']) (calls_for k dcs)))"
  shows "\<exists>ds \<in> set dss. s_labels s = dataset_labels ds"
proof -
  from assms(2) obtain c where c: "c \<in> set (calls_for k dcs)"
    and s: "s_labels s = zip [''pool'', ''dataset''] (fst c)"
    by (auto simp: replay_samples)
  from c obtain c' where "c' \<in> set dcs" and "fst c' = fst c"
    using calls_for_labels by blast
  with all_calls_labels [OF assms(1), of c'] obtain ds where "ds \<in> set dss" and "fst c = ds_labels ds"
    by auto
  with s show ?thesis by (auto simp: ds_labels_def)
qed

section \<open>The concrete hierarchy, evaluated\<close>

lemmas scenario_defs = scenario_def scenario_datasets_def tank_def fs_properties_def vol_properties_def
  tank_data_def tank_data_logs_def tank_data_logs_old_def tank_vol1_def tank_data_vol2_def
  tank_other_def init_def

lemmas collect_defs = collect_def for_each_def collect_pool_def collect_dataset_def collect_rows_def
  add_sample_def family_at_def add_metric_def property_at_def meta_at_def depth_def
  new_pools_metrics_def new_datasets_metrics_def new_dataset_families_def GaugeMetricFamily_def
  pmetrics_def dsmetrics_def volmetrics_def type_codes_def observe_def
  py_int_def parse_number_def int_max_str_digits_def strip_def is_space_def is_digit_def digit_val_def

lemma scenario_completes: "\<exists>out s. collect (init 2 None) scenario = Inr (out, s)"
  by (simp add: scenario_defs collect_defs)

lemma scenario_has_datasets: "datasets scenario = Inr (scenario_datasets, None)"
  by (simp add: scenario_def)

lemma scenario_distinct: "distinct (map ds_name scenario_datasets)"
  by (simp add: scenario_defs)

lemma scenario_depths:
  "depth tank_data = 1" "depth tank_data_logs = 2" "depth tank_data_logs_old = 3"
  "depth tank_vol1 = 1" "depth tank_data_vol2 = 2" "depth tank_other = 1"
  by (simp_all add: depth_def scenario_defs)

lemma limit_init [simp]: "limit (init l x) = l"
  by (simp add: init_def)

section \<open>The claims\<close>

text \<open>
  C1. For every depth limit \<open>L\<close> and every dataset of a completed pass, where the depth
  of a dataset is the number of segments of its name minus one: a dataset deeper than
  \<open>L\<close> has no sample in the output; a dataset at depth \<open>L\<close> has exactly one, the
  \<open>used_bytes\<close> gauge labelled with its pool and its name; a dataset above \<open>L\<close> has one
  sample for each of the six rows of the dataset catalogue, and one more for the volume
  catalogue when its type is volume. Dataset names are unique, as they are in ZFS.
\<close>

theorem depth_policy:
  assumes "collect self w = Inr (out, self')" and "datasets w = Inr (dss, fl)"
    and "ds \<in> set dss" and "distinct (map ds_name dss)"
  shows "(limit self < depth ds \<longrightarrow> dataset_samples out ds = []) \<and>
         (depth ds = limit self \<longrightarrow>
            (\<exists>p. ds_properties ds ''used'' = Some p \<and>
                 dataset_samples out ds =
                   [\<lparr>s_name = ''zfs_dataset_used_bytes'', s_labels = dataset_labels ds, s_value = parsed p\<rparr>])) \<and>
         (depth ds < limit self \<longrightarrow>
            map s_name (dataset_samples out ds) =
              [''zfs_dataset_used_bytes'', ''zfs_dataset_usedbydataset_bytes'',
               ''zfs_dataset_available_bytes'', ''zfs_dataset_atime_enabled'',
               ''zfs_dataset_creation_date'', ''zfs_dataset_type''] @
              (if ds_type ds = VOLUME then [''zfs_dataset_volsize_bytes''] else []))"
proof (intro conjI impI)
  assume "limit self < depth ds"
  with assms show "dataset_samples out ds = []" by (rule deep_samples)
next
  assume "depth ds = limit self"
  with assms show "\<exists>p. ds_properties ds ''used'' = Some p \<and>
       dataset_samples out ds =
         [\<lparr>s_name = ''zfs_dataset_used_bytes'', s_labels = dataset_labels ds, s_value = parsed p\<rparr>]"
    by (rule summary_samples)
next
  assume "depth ds < limit self"
  with assms obtain pu pd pa pc n pt where
    "ds_properties ds ''used'' = Some pu" and
    "ds_properties ds ''usedbydataset'' = Some pd" and
    "ds_properties ds ''available'' = Some pa" and
    "ds_properties ds ''creation'' = Some pc" and
    "py_int (rawvalue pc) = Inr n" and
    "ds_properties ds ''type'' = Some pt" and
    vol: "ds_type ds = VOLUME \<longrightarrow> ds_properties ds ''volsize'' \<noteq> None" and
    out: "dataset_samples out ds =
       six_samples ds (parsed pu) (parsed pd) (parsed pa) n (parsed pt) @ volume_samples ds"
    by (rule full_samplesE)
  show "map s_name (dataset_samples out ds) =
      [''zfs_dataset_used_bytes'', ''zfs_dataset_usedbydataset_bytes'',
       ''zfs_dataset_available_bytes'', ''zfs_dataset_atime_enabled'',
       ''zfs_dataset_creation_date'', ''zfs_dataset_type''] @
      (if ds_type ds = VOLUME then [''zfs_dataset_volsize_bytes''] else [])"
    unfolding out by (simp only: map_append names_six_samples names_volume_samples [OF vol])
qed

theorem depth_policy_witness:
  "\<exists>out self'. collect (init 2 None) scenario = Inr (out, self') \<and>
     dataset_samples out tank_data_logs_old = [] \<and>
     dataset_samples out tank_data_logs =
       [\<lparr>s_name = ''zfs_dataset_used_bytes'',
         s_labels = [(''pool'', ''tank''), (''dataset'', ''tank/data/logs'')],
         s_value = PyInt 500\<rparr>] \<and>
     map s_name (dataset_samples out tank_data) =
       [''zfs_dataset_used_bytes'', ''zfs_dataset_usedbydataset_bytes'',
        ''zfs_dataset_available_bytes'', ''zfs_dataset_atime_enabled'',
        ''zfs_dataset_creation_date'', ''zfs_dataset_type''] \<and>
     map s_name (dataset_samples out tank_vol1) =
       [''zfs_dataset_used_bytes'', ''zfs_dataset_usedbydataset_bytes'',
        ''zfs_dataset_available_bytes'', ''zfs_dataset_atime_enabled'',
        ''zfs_dataset_creation_date'', ''zfs_dataset_type'', ''zfs_dataset_volsize_bytes'']"
proof -
  from scenario_completes obtain out self' where c: "collect (init 2 None) scenario = Inr (out, self')"
    by blast
  note policy = depth_policy [OF c scenario_has_datasets _ scenario_distinct]
  have "dataset_samples out tank_data_logs_old = []"
    using policy [of tank_data_logs_old] by (simp add: scenario_depths scenario_datasets_def)
  moreover have "dataset_samples out tank_data_logs =
       [\<lparr>s_name = ''zfs_dataset_used_bytes'',
         s_labels = [(''pool'', ''tank''), (''dataset'', ''tank/data/logs'')],
         s_value = PyInt 500\<rparr>]"
    using policy [of tank_data_logs]
    by (simp add: scenario_depths scenario_datasets_def) (simp add: tank_data_logs_def fs_properties_def tank_def)
  moreover have "map s_name (dataset_samples out tank_data) =
       [''zfs_dataset_used_bytes'', ''zfs_dataset_usedbydataset_bytes'',
        ''zfs_dataset_available_bytes'', ''zfs_dataset_atime_enabled'',
        ''zfs_dataset_creation_date'', ''zfs_dataset_type'']"
    using policy [of tank_data]
    by (simp add: scenario_depths scenario_datasets_def) (simp add: tank_data_def)
  moreover have "map s_name (dataset_samples out tank_vol1) =
       [''zfs_dataset_used_bytes'', ''zfs_dataset_usedbydataset_bytes'',
        ''zfs_dataset_available_bytes'', ''zfs_dataset_atime_enabled'',
        ''zfs_dataset_creation_date'', ''zfs_dataset_type'', ''zfs_dataset_volsize_bytes'']"
    using policy [of tank_vol1]
    by (simp add: scenario_depths scenario_datasets_def) (simp add: tank_vol1_def)
  ultimately show ?thesis using c by (intro exI conjI)
qed




text \<open>
  C3 (the code does not do this). The exclusion set given at construction is stored
  and never read: with \<open>tank/data\<close> excluded, \<open>tank/data\<close> is still reported with its six
  samples.
\<close>

theorem excluded_dataset_still_reported:
  "\<exists>out self'. collect (init 2 (Some [''tank/data''])) scenario = Inr (out, self') \<and>
     ds_name tank_data \<in> exclude self' \<and>
     map s_name (dataset_samples out tank_data) =
       [''zfs_dataset_used_bytes'', ''zfs_dataset_usedbydataset_bytes'',
        ''zfs_dataset_available_bytes'', ''zfs_dataset_atime_enabled'',
        ''zfs_dataset_creation_date'', ''zfs_dataset_type'']"
  by (simp add: scenario_defs collect_defs dataset_samples_def)

text \<open>
  C4. When the ZFS data source fails, the pass raises and yields no series: an
  exception on getting the pools, or on getting the datasets, is the exception of
  \<open>collect\<close>; an enumeration of pools or datasets that fails after some objects makes
  \<open>collect\<close> raise as well. The result is never an empty or shortened list of series.
\<close>

theorem source_failure_aborts_pass:
  "(pools w = Inl e \<longrightarrow> collect self w = Inl e) \<and>
   ((\<exists>pls. pools w = Inr pls) \<and> datasets w = Inl e \<longrightarrow> collect self w = Inl e) \<and>
   ((\<exists>pls. pools w = Inr (pls, Some e)) \<or> (\<exists>dss. datasets w = Inr (dss, Some e)) \<longrightarrow>
      (\<exists>e'. collect self w = Inl e'))"
proof (intro conjI impI)
  assume "pools w = Inl e"
  then show "collect self w = Inl e" by (simp add: collect_def)
next
  assume "(\<exists>pls. pools w = Inr pls) \<and> datasets w = Inl e"
  then show "collect self w = Inl e" by (auto simp: collect_def)
next
  assume "(\<exists>pls. pools w = Inr (pls, Some e)) \<or> (\<exists>dss. datasets w = Inr (dss, Some e))"
  then have "\<not> (\<exists>out self'. collect self w = Inr (out, self'))"
    by (auto simp: collect_Inr)
  with collect_Inl_or_Inr [of self w] show "\<exists>e'. collect self w = Inl e'" by blast
qed

theorem source_failure_aborts_pass_witness:
  "collect (init 2 None) scenario_unavailable = Inl (ZFSException ''cannot open pools'') \<and>
   (\<exists>e'. collect (init 2 None) scenario_interrupted = Inl e')"
proof
  show "collect (init 2 None) scenario_unavailable = Inl (ZFSException ''cannot open pools'')"
    using source_failure_aborts_pass
      [of scenario_unavailable "ZFSException ''cannot open pools''" "init 2 None"]
    by (simp add: scenario_unavailable_def)
next
  show "\<exists>e'. collect (init 2 None) scenario_interrupted = Inl e'"
    using source_failure_aborts_pass
      [of scenario_interrupted "ZFSException ''cannot iterate datasets''" "init 2 None"]
    by (simp add: scenario_interrupted_def)
qed

text \<open>
  C5. For a dataset at full detail in a completed pass, the \<open>atime_enabled\<close> sample is 0
  when the dataset has no \<open>atime\<close> property, and otherwise 1 if the parsed value is truthy
  and 0 if not. The absence of \<open>atime\<close> never makes the pass fail: the same pass over the
  same datasets with \<open>atime\<close> removed from all of them completes as well, and reports 0.
\<close>

theorem atime_enabled_default:
  assumes "collect self w = Inr (out, self')" and "datasets w = Inr (dss, fl)"
    and "ds \<in> set dss" and "distinct (map ds_name dss)" and "depth ds < limit self"
  shows "named ''zfs_dataset_atime_enabled'' (dataset_samples out ds) =
           [\<lparr>s_name = ''zfs_dataset_atime_enabled'', s_labels = dataset_labels ds,
             s_value = PyInt (case ds_properties ds ''atime'' of
                                None \<Rightarrow> 0
                              | Some p \<Rightarrow> if truthy (parsed p) then 1 else 0)\<rparr>] \<and>
         (\<exists>out'. collect self (w\<lparr>datasets := Inr (map without_atime dss, fl)\<rparr>) = Inr (out', self') \<and>
            named ''zfs_dataset_atime_enabled'' (dataset_samples out' (without_atime ds)) =
              [\<lparr>s_name = ''zfs_dataset_atime_enabled'', s_labels = dataset_labels ds,
                s_value = PyInt 0\<rparr>])"
proof
  from assms show "named ''zfs_dataset_atime_enabled'' (dataset_samples out ds) =
           [\<lparr>s_name = ''zfs_dataset_atime_enabled'', s_labels = dataset_labels ds,
             s_value = PyInt (case ds_properties ds ''atime'' of
                                None \<Rightarrow> 0
                              | Some p \<Rightarrow> if truthy (parsed p) then 1 else 0)\<rparr>]"
    by (rule full_atime_sample)
next
  let ?w = "w\<lparr>datasets := Inr (map without_atime dss, fl)\<rparr>"
  from assms(1,2) obtain pls pcs where
    fl: "fl = None" and pls: "pools w = Inr (pls, None)" and
    pcs: "all_calls pool_emitted (\<lambda>pool. [pool_name pool]) pls = Inr pcs" and
    self': "self' = self\<lparr>duration_summary := duration_summary self @ [time_at_end w - time_at_start w]\<rparr>"
    by (auto simp: collect_Inr)
  have every: "\<forall>d \<in> set (map without_atime dss). \<exists>kvs. emitted (limit self) d = Inr kvs"
    using collect_needs_every_dataset [OF assms(1,2)] by (auto simp: emitted_without_atime)
  have "\<exists>out'. collect self ?w =
     Inr (out', self\<lparr>duration_summary := duration_summary self @ [time_at_end ?w - time_at_start ?w]\<rparr>)"
    using pls pcs every by (intro collect_completes [where pls = pls and dss = "map without_atime dss"])
      (auto simp: fl)
  then obtain out' where c': "collect self ?w = Inr (out', self')"
    unfolding self' by auto
  have d': "datasets ?w = Inr (map without_atime dss, fl)" by simp
  have m': "without_atime ds \<in> set (map without_atime dss)" using assms(3) by simp
  have n': "distinct (map ds_name (map without_atime dss))" using assms(4) by (simp add: comp_def)
  have l': "depth (without_atime ds) < limit self" using assms(5) by simp
  from full_atime_sample [OF c' d' m' n' l'] c'
  show "\<exists>out'. collect self ?w = Inr (out', self') \<and>
            named ''zfs_dataset_atime_enabled'' (dataset_samples out' (without_atime ds)) =
              [\<lparr>s_name = ''zfs_dataset_atime_enabled'', s_labels = dataset_labels ds,
                s_value = PyInt 0\<rparr>]"
    by auto
qed

theorem atime_enabled_default_witness:
  "\<exists>out self'. collect (init 2 None) scenario = Inr (out, self') \<and>
     ds_properties tank_vol1 ''atime'' = None \<and>
     named ''zfs_dataset_atime_enabled'' (dataset_samples out tank_vol1) =
       [\<lparr>s_name = ''zfs_dataset_atime_enabled'',
         s_labels = [(''pool'', ''tank''), (''dataset'', ''tank/vol1'')], s_value = PyInt 0\<rparr>] \<and>
     named ''zfs_dataset_atime_enabled'' (dataset_samples out tank_data) =
       [\<lparr>s_name = ''zfs_dataset_atime_enabled'',
         s_labels = [(''pool'', ''tank''), (''dataset'', ''tank/data'')], s_value = PyInt 1\<rparr>]"
proof -
  from scenario_completes obtain out self' where c: "collect (init 2 None) scenario = Inr (out, self')"
    by blast
  note atime = atime_enabled_default [OF c scenario_has_datasets _ scenario_distinct, THEN conjunct1]
  have absent: "ds_properties tank_vol1 ''atime'' = None"
    by (simp add: tank_vol1_def vol_properties_def)
  have vol1: "named ''zfs_dataset_atime_enabled'' (dataset_samples out tank_vol1) =
       [\<lparr>s_name = ''zfs_dataset_atime_enabled'',
         s_labels = [(''pool'', ''tank''), (''dataset'', ''tank/vol1'')], s_value = PyInt 0\<rparr>]"
    using atime [of tank_vol1]
    by (simp add: scenario_depths scenario_datasets_def) (simp add: tank_vol1_def vol_properties_def tank_def)
  have data: "named ''zfs_dataset_atime_enabled'' (dataset_samples out tank_data) =
       [\<lparr>s_name = ''zfs_dataset_atime_enabled'',
         s_labels = [(''pool'', ''tank''), (''dataset'', ''tank/data'')], s_value = PyInt 1\<rparr>]"
    using atime [of tank_data]
    by (simp add: scenario_depths scenario_datasets_def) (simp add: tank_data_def fs_properties_def tank_def)
  from c absent vol1 data show ?thesis by (intro exI conjI)
qed

text \<open>
  C6. For a dataset at full detail in a completed pass, the series \<open>type\<close> has exactly
  one sample for it, whose value is 0 for filesystem, 1 for volume, 2 for snapshot, 3
  for bookmark, and -1 for every other parsed value of the \<open>type\<close> property.
\<close>

theorem type_sample:
  assumes "collect self w = Inr (out, self')" and "datasets w = Inr (dss, fl)"
    and "ds \<in> set dss" and "distinct (map ds_name dss)" and "depth ds < limit self"
  shows "\<exists>p. ds_properties ds ''type'' = Some p \<and>
     named ''zfs_dataset_type'' (dataset_samples out ds) =
       [\<lparr>s_name = ''zfs_dataset_type'', s_labels = dataset_labels ds,
         s_value = PyInt (if parsed p = PyStr ''filesystem'' then 0
                          else if parsed p = PyStr ''volume'' then 1
                          else if parsed p = PyStr ''snapshot'' then 2
                          else if parsed p = PyStr ''bookmark'' then 3
                          else - 1)\<rparr>]"
proof -
  from assms obtain pu pd pa pc n pt where
    "ds_properties ds ''used'' = Some pu" and
    "ds_properties ds ''usedbydataset'' = Some pd" and
    "ds_properties ds ''available'' = Some pa" and
    "ds_properties ds ''creation'' = Some pc" and
    "py_int (rawvalue pc) = Inr n" and
    pt: "ds_properties ds ''type'' = Some pt" and
    "ds_type ds = VOLUME \<longrightarrow> ds_properties ds ''volsize'' \<noteq> None" and
    out: "dataset_samples out ds =
       six_samples ds (parsed pu) (parsed pd) (parsed pa) n (parsed pt) @ volume_samples ds"
    by (rule full_samplesE)
  have "named ''zfs_dataset_type'' (dataset_samples out ds) =
       [\<lparr>s_name = ''zfs_dataset_type'', s_labels = dataset_labels ds,
         s_value = PyInt (if parsed pt = PyStr ''filesystem'' then 0
                          else if parsed pt = PyStr ''volume'' then 1
                          else if parsed pt = PyStr ''snapshot'' then 2
                          else if parsed pt = PyStr ''bookmark'' then 3
                          else - 1)\<rparr>]"
    unfolding out by (simp only: named_append named_six_samples named_volume_samples type_code_cases append_Nil2)
  with pt show ?thesis by blast
qed

theorem type_sample_witness:
  "\<exists>out self'. collect (init 2 None) scenario = Inr (out, self') \<and>
     map s_value (named ''zfs_dataset_type'' (dataset_samples out tank_data)) = [PyInt 0] \<and>
     map s_value (named ''zfs_dataset_type'' (dataset_samples out tank_vol1)) = [PyInt 1] \<and>
     map s_value (named ''zfs_dataset_type'' (dataset_samples out tank_other)) = [PyInt (- 1)]"
proof -
  from scenario_completes obtain out self' where c: "collect (init 2 None) scenario = Inr (out, self')"
    by blast
  note type = type_sample [OF c scenario_has_datasets _ scenario_distinct]
  have data: "map s_value (named ''zfs_dataset_type'' (dataset_samples out tank_data)) = [PyInt 0]"
    using type [of tank_data]
    by (simp add: scenario_depths scenario_datasets_def) (auto simp: tank_data_def fs_properties_def)
  have vol1: "map s_value (named ''zfs_dataset_type'' (dataset_samples out tank_vol1)) = [PyInt 1]"
    using type [of tank_vol1]
    by (simp add: scenario_depths scenario_datasets_def) (auto simp: tank_vol1_def vol_properties_def)
  have other: "map s_value (named ''zfs_dataset_type'' (dataset_samples out tank_other)) = [PyInt (- 1)]"
    using type [of tank_other]
    by (simp add: scenario_depths scenario_datasets_def) (auto simp: tank_other_def fs_properties_def)
  from c data vol1 other show ?thesis by (intro exI conjI)
qed

text \<open>
  C7. In a completed pass, a dataset whose type is not volume has no \<open>volsize_bytes\<close>
  sample at any depth; a volume has none at or below the summary level (depth at least
  the limit), and exactly one, the parsed \<open>volsize\<close>, at full detail (depth below the
  limit).
\<close>

theorem volsize_only_for_full_detail_volumes:
  assumes "collect self w = Inr (out, self')" and "datasets w = Inr (dss, fl)"
    and "ds \<in> set dss" and "distinct (map ds_name dss)"
  shows "(ds_type ds \<noteq> VOLUME \<longrightarrow> named ''zfs_dataset_volsize_bytes'' (dataset_samples out ds) = []) \<and>
         (limit self \<le> depth ds \<longrightarrow> named ''zfs_dataset_volsize_bytes'' (dataset_samples out ds) = []) \<and>
         (ds_type ds = VOLUME \<and> depth ds < limit self \<longrightarrow>
            (\<exists>p. ds_properties ds ''volsize'' = Some p \<and>
                 named ''zfs_dataset_volsize_bytes'' (dataset_samples out ds) =
                   [\<lparr>s_name = ''zfs_dataset_volsize_bytes'', s_labels = dataset_labels ds,
                     s_value = parsed p\<rparr>]))"
proof -
  consider (deep) "limit self < depth ds" | (summary) "depth ds = limit self" | (full) "depth ds < limit self"
    by linarith
  then show ?thesis
  proof cases
    case deep
    with deep_samples [OF assms deep] show ?thesis by simp
  next
    case summary
    with summary_samples [OF assms summary] show ?thesis by auto
  next
    case full
    with assms obtain pu pd pa pc n pt where
      "ds_properties ds ''used'' = Some pu" and
      "ds_properties ds ''usedbydataset'' = Some pd" and
      "ds_properties ds ''available'' = Some pa" and
      "ds_properties ds ''creation'' = Some pc" and
      "py_int (rawvalue pc) = Inr n" and
      "ds_properties ds ''type'' = Some pt" and
      vol: "ds_type ds = VOLUME \<longrightarrow> ds_properties ds ''volsize'' \<noteq> None" and
      out: "dataset_samples out ds =
         six_samples ds (parsed pu) (parsed pd) (parsed pa) n (parsed pt) @ volume_samples ds"
      by (rule full_samplesE)
    have "named ''zfs_dataset_volsize_bytes'' (dataset_samples out ds) = volume_samples ds"
      unfolding out by (simp only: named_append named_six_samples named_volume_samples append_Nil)
    with full vol show ?thesis
      by (auto simp: volume_samples_def)
  qed
qed

theorem volsize_only_for_full_detail_volumes_witness:
  "\<exists>out self'. collect (init 2 None) scenario = Inr (out, self') \<and>
     named ''zfs_dataset_volsize_bytes'' (dataset_samples out tank_data) = [] \<and>
     named ''zfs_dataset_volsize_bytes'' (dataset_samples out tank_data_vol2) = [] \<and>
     named ''zfs_dataset_volsize_bytes'' (dataset_samples out tank_vol1) =
       [\<lparr>s_name = ''zfs_dataset_volsize_bytes'',
         s_labels = [(''pool'', ''tank''), (''dataset'', ''tank/vol1'')], s_value = PyInt 2048\<rparr>]"
proof -
  from scenario_completes obtain out self' where c: "collect (init 2 None) scenario = Inr (out, self')"
    by blast
  note volsize = volsize_only_for_full_detail_volumes [OF c scenario_has_datasets _ scenario_distinct]
  have data: "named ''zfs_dataset_volsize_bytes'' (dataset_samples out tank_data) = []"
    using volsize [of tank_data]
    by (simp add: scenario_datasets_def) (simp add: tank_data_def)
  have vol2: "named ''zfs_dataset_volsize_bytes'' (dataset_samples out tank_data_vol2) = []"
    using volsize [of tank_data_vol2]
    by (simp add: scenario_depths scenario_datasets_def)
  have vol1: "named ''zfs_dataset_volsize_bytes'' (dataset_samples out tank_vol1) =
       [\<lparr>s_name = ''zfs_dataset_volsize_bytes'',
         s_labels = [(''pool'', ''tank''), (''dataset'', ''tank/vol1'')], s_value = PyInt 2048\<rparr>]"
    using volsize [of tank_vol1]
    by (simp add: scenario_depths scenario_datasets_def) (auto simp: tank_vol1_def vol_properties_def tank_def)
  from c data vol2 vol1 show ?thesis by (intro exI conjI)
qed

text \<open>
  C8. The series of a completed pass follow the naming contract. They are, in this
  order, the three pool series \<open>zfs_pool_size_bytes\<close>, \<open>zfs_pool_allocated_bytes\<close>,
  \<open>zfs_pool_freeing_bytes\<close> with the single label \<open>pool\<close>, and the seven dataset series
  \<open>zfs_dataset_<suffix>\<close> of the catalogue suffixes with exactly the labels \<open>pool\<close> and
  \<open>dataset\<close>. Every sample carries the name and exactly the label names of its series.
  Each pool series holds one sample per pool, labelled with the pool's name and valued
  with the parsed property of that series; every sample of a dataset series is labelled
  with the pool name and the name of one of the datasets.
\<close>

theorem naming_contract:
  assumes "collect self w = Inr (out, self')" and "pools w = Inr (pls, pfl)" and "datasets w = Inr (dss, fl)"
  shows "map (\<lambda>f. (m_name f, m_labelnames f)) out =
           [(''zfs_pool_size_bytes'', [''pool'']),
            (''zfs_pool_allocated_bytes'', [''pool'']),
            (''zfs_pool_freeing_bytes'', [''pool'']),
            (''zfs_dataset_used_bytes'', [''pool'', ''dataset'']),
            (''zfs_dataset_usedbydataset_bytes'', [''pool'', ''dataset'']),
            (''zfs_dataset_available_bytes'', [''pool'', ''dataset'']),
            (''zfs_dataset_atime_enabled'', [''pool'', ''dataset'']),
            (''zfs_dataset_creation_date'', [''pool'', ''dataset'']),
            (''zfs_dataset_type'', [''pool'', ''dataset'']),
            (''zfs_dataset_volsize_bytes'', [''pool'', ''dataset''])] \<and>
         (\<forall>f \<in> set out. \<forall>s \<in> set (m_samples f).
            s_name s = m_name f \<and> map fst (s_labels s) = m_labelnames f) \<and>
         map (\<lambda>f. map (\<lambda>s. (s_name s, s_labels s, Some (s_value s))) (m_samples f)) (take 3 out) =
           map (\<lambda>p. map (\<lambda>pool. (''zfs_pool_'' @ p @ ''_bytes'', [(''pool'', pool_name pool)],
                                   map_option parsed (pool_properties pool p))) pls)
             [''size'', ''allocated'', ''freeing''] \<and>
         (\<forall>f \<in> set (drop 3 out). \<forall>s \<in> set (m_samples f). \<exists>ds \<in> set dss. s_labels s = dataset_labels ds)"
proof -
  from assms obtain pcs dcs where
    pcs: "all_calls pool_emitted (\<lambda>pool. [pool_name pool]) pls = Inr pcs" and
    dcs: "all_calls (emitted (limit self)) ds_labels dss = Inr dcs" and
    out: "out = map snd (with_adds new_pools_metrics (\<lambda>k. calls_for k pcs)) @
               map snd (with_adds new_datasets_metrics (\<lambda>k. calls_for k dcs))"
    by (auto simp: collect_Inr)
  let ?P = "map (\<lambda>p. replay (GaugeMetricFamily (''zfs_pool_'' @ p @ ''_bytes'') (''ZFS Pool '' @ p @ '' in bytes'') [''pool''])
                        (calls_for p pcs)) pmetrics"
  let ?D = "map (\<lambda>r. replay (GaugeMetricFamily (''zfs_dataset_'' @ fst r) (desc (snd r)) [''pool'', ''dataset''])
                        (calls_for (fst r) dcs)) (dsmetrics @ volmetrics)"
  have out': "out = ?P @ ?D"
    unfolding out pool_families dataset_families ..
  have lenP: "length ?P = 3" by (simp add: pmetrics_def)
  have take: "take 3 out = ?P" and drop: "drop 3 out = ?D"
    unfolding out' using lenP by simp_all
  have names: "map (\<lambda>f. (m_name f, m_labelnames f)) out =
           [(''zfs_pool_size_bytes'', [''pool'']),
            (''zfs_pool_allocated_bytes'', [''pool'']),
            (''zfs_pool_freeing_bytes'', [''pool'']),
            (''zfs_dataset_used_bytes'', [''pool'', ''dataset'']),
            (''zfs_dataset_usedbydataset_bytes'', [''pool'', ''dataset'']),
            (''zfs_dataset_available_bytes'', [''pool'', ''dataset'']),
            (''zfs_dataset_atime_enabled'', [''pool'', ''dataset'']),
            (''zfs_dataset_creation_date'', [''pool'', ''dataset'']),
            (''zfs_dataset_type'', [''pool'', ''dataset'']),
            (''zfs_dataset_volsize_bytes'', [''pool'', ''dataset''])]"
    unfolding out' by (simp add: comp_def pmetrics_def dsmetrics_def volmetrics_def)
  have plen: "length (fst c) = 1" if "c \<in> set (calls_for k pcs)" for c k
  proof -
    from that obtain c' where "c' \<in> set pcs" and "fst c' = fst c"
      using calls_for_labels by blast
    with all_calls_labels [OF pcs, of c'] show ?thesis by auto
  qed
  have dlen: "length (fst c) = 2" if "c \<in> set (calls_for k dcs)" for c k
  proof -
    from that obtain c' where "c' \<in> set dcs" and "fst c' = fst c"
      using calls_for_labels by blast
    with all_calls_labels [OF dcs, of c'] show ?thesis by (auto simp: ds_labels_def)
  qed
  have wf: "\<forall>f \<in> set out. \<forall>s \<in> set (m_samples f).
            s_name s = m_name f \<and> map fst (s_labels s) = m_labelnames f"
  proof (intro ballI)
    fix f s assume f: "f \<in> set out" and s: "s \<in> set (m_samples f)"
    from f consider
        (pool) p where "p \<in> set pmetrics"
          "f = replay (GaugeMetricFamily (''zfs_pool_'' @ p @ ''_bytes'')
                 (''ZFS Pool '' @ p @ '' in bytes'') [''pool'']) (calls_for p pcs)"
      | (dataset) r where "r \<in> set (dsmetrics @ volmetrics)"
          "f = replay (GaugeMetricFamily (''zfs_dataset_'' @ fst r) (desc (snd r))
                 [''pool'', ''dataset'']) (calls_for (fst r) dcs)"
      unfolding out' by auto
    then show "s_name s = m_name f \<and> map fst (s_labels s) = m_labelnames f"
    proof cases
      case pool
      from s show ?thesis
        unfolding pool(2) using replay_samples_wellformed [of "calls_for p pcs" "[''pool'']"] plen
        by fastforce
    next
      case dataset
      from s show ?thesis
        unfolding dataset(2) using replay_samples_wellformed [of "calls_for (fst r) dcs" "[''pool'', ''dataset'']"] dlen
        by fastforce
    qed
  qed
  have psamples: "map (\<lambda>f. map (\<lambda>s. (s_name s, s_labels s, Some (s_value s))) (m_samples f)) (take 3 out) =
           map (\<lambda>p. map (\<lambda>pool. (''zfs_pool_'' @ p @ ''_bytes'', [(''pool'', pool_name pool)],
                                   map_option parsed (pool_properties pool p))) pls)
             [''size'', ''allocated'', ''freeing'']"
    unfolding take
    by (simp add: comp_def pmetrics_def [symmetric] pool_family_samples [OF pcs] cong: map_cong)
  have dlabels: "\<forall>f \<in> set (drop 3 out). \<forall>s \<in> set (m_samples f). \<exists>ds \<in> set dss. s_labels s = dataset_labels ds"
    unfolding drop using dataset_family_labels [OF dcs] by auto
  from names wf psamples dlabels show ?thesis by (intro conjI)
qed

theorem naming_contract_witness:
  "\<exists>out self'. collect (init 2 None) scenario = Inr (out, self') \<and>
     map (\<lambda>f. (m_name f, m_labelnames f)) out =
       [(''zfs_pool_size_bytes'', [''pool'']),
        (''zfs_pool_allocated_bytes'', [''pool'']),
        (''zfs_pool_freeing_bytes'', [''pool'']),
        (''zfs_dataset_used_bytes'', [''pool'', ''dataset'']),
        (''zfs_dataset_usedbydataset_bytes'', [''pool'', ''dataset'']),
        (''zfs_dataset_available_bytes'', [''pool'', ''dataset'']),
        (''zfs_dataset_atime_enabled'', [''pool'', ''dataset'']),
        (''zfs_dataset_creation_date'', [''pool'', ''dataset'']),
        (''zfs_dataset_type'', [''pool'', ''dataset'']),
        (''zfs_dataset_volsize_bytes'', [''pool'', ''dataset''])] \<and>
     list_all (\<lambda>f. list_all (\<lambda>s. s_name s = m_name f \<and> map fst (s_labels s) = m_labelnames f)
                          (m_samples f)) out \<and>
     map (\<lambda>f. map (\<lambda>s. (s_name s, s_labels s, Some (s_value s))) (m_samples f)) (take 3 out) =
       [[(''zfs_pool_size_bytes'', [(''pool'', ''tank'')], Some (PyInt 1000))],
        [(''zfs_pool_allocated_bytes'', [(''pool'', ''tank'')], Some (PyInt 400))],
        [(''zfs_pool_freeing_bytes'', [(''pool'', ''tank'')], Some (PyInt 0))]] \<and>
     list_all (\<lambda>f. list_all (\<lambda>s. list_ex (\<lambda>ds. s_labels s = dataset_labels ds) scenario_datasets)
                          (m_samples f)) (drop 3 out)"
proof -
  from scenario_completes obtain out self' where c: "collect (init 2 None) scenario = Inr (out, self')"
    by blast
  have p: "pools scenario = Inr ([tank], None)" by (simp add: scenario_def)
  note contract = naming_contract [OF c p scenario_has_datasets]
  from contract have names: "map (\<lambda>f. (m_name f, m_labelnames f)) out =
       [(''zfs_pool_size_bytes'', [''pool'']),
        (''zfs_pool_allocated_bytes'', [''pool'']),
        (''zfs_pool_freeing_bytes'', [''pool'']),
        (''zfs_dataset_used_bytes'', [''pool'', ''dataset'']),
        (''zfs_dataset_usedbydataset_bytes'', [''pool'', ''dataset'']),
        (''zfs_dataset_available_bytes'', [''pool'', ''dataset'']),
        (''zfs_dataset_atime_enabled'', [''pool'', ''dataset'']),
        (''zfs_dataset_creation_date'', [''pool'', ''dataset'']),
        (''zfs_dataset_type'', [''pool'', ''dataset'']),
        (''zfs_dataset_volsize_bytes'', [''pool'', ''dataset''])]"
    by (rule conjunct1)
  from contract have wf: "list_all (\<lambda>f. list_all (\<lambda>s. s_name s = m_name f \<and>
        map fst (s_labels s) = m_labelnames f) (m_samples f)) out"
    unfolding list_all_iff by (elim conjE)
  from contract have "map (\<lambda>f. map (\<lambda>s. (s_name s, s_labels s, Some (s_value s))) (m_samples f)) (take 3 out) =
       map (\<lambda>p. map (\<lambda>pool. (''zfs_pool_'' @ p @ ''_bytes'', [(''pool'', pool_name pool)],
                               map_option parsed (pool_properties pool p))) [tank])
         [''size'', ''allocated'', ''freeing'']"
    by (elim conjE)
  then have pool: "map (\<lambda>f. map (\<lambda>s. (s_name s, s_labels s, Some (s_value s))) (m_samples f)) (take 3 out) =
       [[(''zfs_pool_size_bytes'', [(''pool'', ''tank'')], Some (PyInt 1000))],
        [(''zfs_pool_allocated_bytes'', [(''pool'', ''tank'')], Some (PyInt 400))],
        [(''zfs_pool_freeing_bytes'', [(''pool'', ''tank'')], Some (PyInt 0))]]"
    by (simp add: tank_def)
  from contract have labels: "list_all (\<lambda>f. list_all (\<lambda>s. list_ex (\<lambda>ds. s_labels s = dataset_labels ds)
        scenario_datasets) (m_samples f)) (drop 3 out)"
    unfolding list_all_iff list_ex_iff by (elim conjE)
  from c names wf pool labels show ?thesis by (intro exI conjI)
qed

text \<open>
  C9 (as stated it fails, see \<open>one_duration_observation_counterexample\<close>; this is what
  the code does). A completed pass adds exactly one observation to the duration
  summary: the second reading of \<open>time.time()\<close> minus the first. It is not negative
  whenever the second reading is not below the first, that is, when the wall clock has
  not been set back between the two readings.
\<close>

theorem one_duration_observation:
  assumes "collect self w = Inr (out, self')"
  shows "duration_summary self' = observe (duration_summary self) (time_at_end w - time_at_start w) \<and>
         length (duration_summary self') = length (duration_summary self) + 1 \<and>
         (time_at_start w \<le> time_at_end w \<longrightarrow> 0 \<le> last (duration_summary self'))"
  using assms by (auto simp: collect_Inr observe_def)

theorem one_duration_observation_witness:
  "\<exists>out self'. collect (init 2 None) scenario = Inr (out, self') \<and>
     duration_summary self' = [2] \<and> 0 \<le> last (duration_summary self')"
proof -
  from scenario_completes obtain out self' where c: "collect (init 2 None) scenario = Inr (out, self')"
    by blast
  from one_duration_observation [OF c]
  have "duration_summary self' = [2] \<and> 0 \<le> last (duration_summary self')"
    by (simp add: scenario_def init_def observe_def)
  with c show ?thesis by (intro exI conjI) auto
qed

text \<open>
  The claim as stated fails: \<open>time.time()\<close> is the wall clock, which can return a lower
  value than an earlier call when the system clock is set back; a pass during which
  that happens completes and observes a negative duration.
\<close>

theorem one_duration_observation_counterexample:
  "map_sum id (\<lambda>r. duration_summary (snd r)) (collect (init 2 None) scenario_clock_set_back) =
     Inr [- 2]"
  by (simp add: scenario_clock_set_back_def scenario_defs collect_defs)

text \<open>
  C10. A completed pass yields the same ten series whatever the hierarchy holds, each
  exactly once and in this order: the three pool series, the six series of the dataset
  catalogue and \<open>volsize_bytes\<close>. A series without samples is yielded empty, and the
  dictionary \<open>volumes_metrics\<close> adds nothing.
\<close>

theorem ten_series:
  assumes "collect self w = Inr (out, self')"
  shows "map m_name out =
     [''zfs_pool_size_bytes'', ''zfs_pool_allocated_bytes'', ''zfs_pool_freeing_bytes'',
      ''zfs_dataset_used_bytes'', ''zfs_dataset_usedbydataset_bytes'', ''zfs_dataset_available_bytes'',
      ''zfs_dataset_atime_enabled'', ''zfs_dataset_creation_date'', ''zfs_dataset_type'',
      ''zfs_dataset_volsize_bytes'']"
proof -
  from assms obtain pcs dcs where
    "out = map snd (with_adds new_pools_metrics (\<lambda>k. calls_for k pcs)) @
           map snd (with_adds new_datasets_metrics (\<lambda>k. calls_for k dcs))"
    by (auto simp: collect_Inr)
  then show ?thesis
    by (simp add: pool_families dataset_families comp_def pmetrics_def dsmetrics_def volmetrics_def)
qed

theorem ten_series_witness:
  "\<exists>out self'. collect (init 2 None) scenario_empty = Inr (out, self') \<and>
     map m_name out =
       [''zfs_pool_size_bytes'', ''zfs_pool_allocated_bytes'', ''zfs_pool_freeing_bytes'',
        ''zfs_dataset_used_bytes'', ''zfs_dataset_usedbydataset_bytes'', ''zfs_dataset_available_bytes'',
        ''zfs_dataset_atime_enabled'', ''zfs_dataset_creation_date'', ''zfs_dataset_type'',
        ''zfs_dataset_volsize_bytes''] \<and>
     concat (map m_samples out) = []"
proof -
  have "\<exists>out self'. collect (init 2 None) scenario_empty = Inr (out, self') \<and> concat (map m_samples out) = []"
    by (simp add: scenario_empty_def scenario_defs collect_defs)
  then obtain out self' where c: "collect (init 2 None) scenario_empty = Inr (out, self')"
    and e: "concat (map m_samples out) = []"
    by blast
  from c e ten_series [OF c] show ?thesis by (intro exI conjI)
qed

end
